theory Spec2Isabelle
  imports Main "HOL-Library.Sublist" "HOL-Library.Monad_Syntax"
begin

section \<open>Conventions of the embedding\<close>

text \<open>
  The development embeds the decision engine of opencode-damage-control
  (\<^verbatim>\<open>src/patterns.ts\<close> and \<^verbatim>\<open>src/config.ts\<close>) in HOL.

  \<^item> A JavaScript string is a \<^typ>\<open>string\<close>: a list of code units below 256.
  \<^item> Values with a TypeScript type (\<^verbatim>\<open>Pattern\<close>, \<^verbatim>\<open>ProtectedPath\<close>,
    \<^verbatim>\<open>DamageControlConfig\<close>) are modelled at that type: an interface is a record,
    a string-literal union is a datatype, an array is a list, an optional field is an
    \<^typ>\<open>'a option\<close>, and a \<^verbatim>\<open>Record<string, T>\<close> is the association list of its
    own properties, with distinct keys. A read \<^verbatim>\<open>obj[key]\<close> of such a record also sees
    what the record inherits from \<^verbatim>\<open>Object.prototype\<close>, and the objects that
    \<^verbatim>\<open>applyConfig\<close> returns hold what such a read gave (\<open>read_member\<close> below).
  \<^item> Values of type \<^verbatim>\<open>unknown\<close> (the parsed configuration file) are JSON trees, and
    the operations the code performs on them follow ECMAScript.
  \<^item> Every \<^verbatim>\<open>throw\<close> is a value: functions that can raise return
    \<open>error + 'a\<close>, with \<^term>\<open>Inl\<close> for the exception.
  \<^item> \<^verbatim>\<open>process.env.HOME\<close> is an explicit argument of type \<^typ>\<open>string option\<close>.
\<close>

datatype error =
    SyntaxError   \<comment> \<open>thrown by \<^verbatim>\<open>new RegExp\<close> on an invalid pattern\<close>
  | TypeError     \<comment> \<open>thrown when an object cannot be converted to a primitive\<close>
  | Unsupported   \<comment> \<open>regular-expression syntax outside the fragment modelled below\<close>

section \<open>The regular-expression engine of the host language\<close>

text \<open>
  \<^verbatim>\<open>patterns.ts\<close> builds regular expressions at run time (\<^verbatim>\<open>new RegExp(p.pattern, 'i')\<close>,
  \<^verbatim>\<open>globToRegex\<close>) and holds regular-expression literals. The engine is ECMAScript's;
  it is modelled for the syntax that occurs in the repository: literals, \<^verbatim>\<open>.\<close>,
  character classes with ranges and the class escapes \<^verbatim>\<open>\s \S \w \W \d \D\<close>, groups,
  alternation, the quantifiers \<^verbatim>\<open>* + ?\<close> (greedy and lazy), \<^verbatim>\<open>^\<close>, \<^verbatim>\<open>$\<close>, \<^verbatim>\<open>\b\<close>,
  \<^verbatim>\<open>\B\<close>, lookahead, identity escapes, and the flag \<^verbatim>\<open>i\<close>. There are no
  backreferences in that fragment, so a capturing group is a plain group.
\<close>

subsection \<open>Abstract syntax\<close>

datatype cset = Space | Word | Digit

datatype citem =
    CChar char
  | CRange char char
  | CSet bool cset   \<comment> \<open>the flag is True for the complemented escape (\<^verbatim>\<open>\S\<close>, \<^verbatim>\<open>\W\<close>, \<^verbatim>\<open>\D\<close>)\<close>

datatype regex =
    Eps
  | Chr char
  | Dot
  | Cls bool "citem list"   \<comment> \<open>the flag is True for a negated class \<^verbatim>\<open>[^...]\<close>\<close>
  | Seq regex regex
  | Alt regex regex
  | Star bool regex         \<comment> \<open>the flag is True for a greedy quantifier\<close>
  | Opt bool regex
  | Bol
  | Eol
  | WordB bool              \<comment> \<open>\<^verbatim>\<open>\b\<close>; the flag is True for \<^verbatim>\<open>\B\<close>\<close>
  | Look bool regex         \<comment> \<open>lookahead; the flag is True for the negative form \<^verbatim>\<open>(?!...)\<close>\<close>

text \<open>
  An Isabelle string literal cannot hold a backslash. The constants below write
  \<^verbatim>\<open>%\<close> where the source has a backslash, and \<open>bsl\<close> puts the backslash back; no
  pattern, reason or path of the repository contains \<^verbatim>\<open>%\<close>.
\<close>

definition bs :: char where
  "bs = CHR 0x5C"

definition bsl :: "string \<Rightarrow> string" where
  "bsl s = map (\<lambda>c. if c = CHR ''%'' then CHR 0x5C else c) s"

subsection \<open>Characters\<close>

text \<open>
  \<open>canonicalize\<close> is the case folding of the flag \<^verbatim>\<open>i\<close> without the flag \<^verbatim>\<open>u\<close>: the
  upper-case mapping of a code unit, on code units below 256. The two code units whose
  upper case lies above 255 keep that value, so they stay distinct from all others.
\<close>

definition canonicalize :: "nat \<Rightarrow> nat" where
  "canonicalize n =
     (if (97 \<le> n \<and> n \<le> 122) \<or> (224 \<le> n \<and> n \<le> 254 \<and> n \<noteq> 247) then n - 32
      else if n = 181 then 924
      else if n = 255 then 376
      else n)"

definition char_eq :: "bool \<Rightarrow> char \<Rightarrow> char \<Rightarrow> bool" where
  "char_eq ic a x = (if ic then canonicalize (of_char a) = canonicalize (of_char x) else a = x)"

fun in_cset :: "cset \<Rightarrow> nat \<Rightarrow> bool" where
  "in_cset Space n = (n = 32 \<or> (9 \<le> n \<and> n \<le> 13) \<or> n = 160)"
| "in_cset Digit n = (48 \<le> n \<and> n \<le> 57)"
| "in_cset Word n =
     ((97 \<le> n \<and> n \<le> 122) \<or> (65 \<le> n \<and> n \<le> 90) \<or> (48 \<le> n \<and> n \<le> 57) \<or> n = 95)"

fun citem_match :: "bool \<Rightarrow> citem \<Rightarrow> char \<Rightarrow> bool" where
  "citem_match ic (CChar a) x = char_eq ic a x"
| "citem_match ic (CRange a b) x =
     (if ic then list_ex (\<lambda>n. canonicalize n = canonicalize (of_char x))
                   [of_char a ..< Suc (of_char b)]
      else (of_char a \<le> (of_char x :: nat) \<and> (of_char x :: nat) \<le> of_char b))"
| "citem_match ic (CSet neg s) x = (in_cset s (of_char x) \<noteq> neg)"

definition cls_match :: "bool \<Rightarrow> bool \<Rightarrow> citem list \<Rightarrow> char \<Rightarrow> bool" where
  "cls_match ic neg items x = (list_ex (\<lambda>i. citem_match ic i x) items \<noteq> neg)"

definition dot_match :: "char \<Rightarrow> bool" where
  "dot_match x = (of_char x \<noteq> (10::nat) \<and> of_char x \<noteq> (13::nat))"

definition is_word :: "char option \<Rightarrow> bool" where
  "is_word c = (case c of None \<Rightarrow> False | Some x \<Rightarrow> in_cset Word (of_char x))"

subsection \<open>The backtracking matcher\<close>

text \<open>
  The matcher follows the continuation semantics of the language definition, with the
  continuation as a list of frames. Its state is the character before the current
  position (None at the start of the input) and the rest of the input; it returns the
  input left after the first successful path in priority order. A \<open>CkStar\<close> or
  \<open>CkOpt\<close> frame is the check that rejects an iteration of a quantified term that
  consumed nothing.
\<close>

datatype frame = R regex | CkStar nat bool regex | CkOpt nat

fun rweight :: "regex \<Rightarrow> nat" where
  "rweight (Seq a b) = rweight a + rweight b + 1"
| "rweight (Alt a b) = rweight a + rweight b + 1"
| "rweight (Star g a) = rweight a + 2"
| "rweight (Opt g a) = rweight a + 2"
| "rweight (Look n a) = rweight a + 1"
| "rweight _ = 1"

fun fweight :: "nat \<Rightarrow> frame \<Rightarrow> nat" where
  "fweight l (R r) = rweight r"
| "fweight l (CkStar n g a) = (if l < n then rweight a + 3 else 0)"
| "fweight l (CkOpt n) = 1"

function (sequential) m :: "bool \<Rightarrow> frame list \<Rightarrow> char option \<Rightarrow> string \<Rightarrow> string option" where
  "m ic [] p s = Some s"
| "m ic (R Eps # k) p s = m ic k p s"
| "m ic (R (Chr c) # k) p s =
     (case s of [] \<Rightarrow> None | x # xs \<Rightarrow> if char_eq ic c x then m ic k (Some x) xs else None)"
| "m ic (R Dot # k) p s =
     (case s of [] \<Rightarrow> None | x # xs \<Rightarrow> if dot_match x then m ic k (Some x) xs else None)"
| "m ic (R (Cls neg items) # k) p s =
     (case s of [] \<Rightarrow> None
      | x # xs \<Rightarrow> if cls_match ic neg items x then m ic k (Some x) xs else None)"
| "m ic (R (Seq a b) # k) p s = m ic (R a # R b # k) p s"
| "m ic (R (Alt a b) # k) p s =
     (case m ic (R a # k) p s of Some r \<Rightarrow> Some r | None \<Rightarrow> m ic (R b # k) p s)"
| "m ic (R (Star g a) # k) p s =
     (if g then (case m ic (R a # CkStar (length s) g a # k) p s of
                   Some r \<Rightarrow> Some r | None \<Rightarrow> m ic k p s)
      else (case m ic k p s of
              Some r \<Rightarrow> Some r | None \<Rightarrow> m ic (R a # CkStar (length s) g a # k) p s))"
| "m ic (CkStar n g a # k) p s = (if length s < n then m ic (R (Star g a) # k) p s else None)"
| "m ic (R (Opt g a) # k) p s =
     (if g then (case m ic (R a # CkOpt (length s) # k) p s of
                   Some r \<Rightarrow> Some r | None \<Rightarrow> m ic k p s)
      else (case m ic k p s of
              Some r \<Rightarrow> Some r | None \<Rightarrow> m ic (R a # CkOpt (length s) # k) p s))"
| "m ic (CkOpt n # k) p s = (if length s < n then m ic k p s else None)"
| "m ic (R Bol # k) p s = (if p = None then m ic k p s else None)"
| "m ic (R Eol # k) p s = (if s = [] then m ic k p s else None)"
| "m ic (R (WordB neg) # k) p s =
     (if (is_word p \<noteq> is_word (case s of [] \<Rightarrow> None | x # _ \<Rightarrow> Some x)) \<noteq> neg
      then m ic k p s else None)"
| "m ic (R (Look neg a) # k) p s =
     (case m ic [R a] p s of
        None \<Rightarrow> (if neg then m ic k p s else None)
      | Some _ \<Rightarrow> (if neg then None else m ic k p s))"
  by pat_completeness auto
termination
  by (relation "inv_image (less_than <*lex*> less_than)
        (\<lambda>(ic, k, p, s). (length s, sum_list (map (fweight (length s)) k)))") auto

subsection \<open>The pattern parser\<close>

text \<open>
  One pass over the pattern source, with a stack of open groups. \<open>pending\<close> is the
  last term of the current alternative, kept apart until it is known whether a
  quantifier follows: an atom may take one, a quantified atom may take the lazy mark
  \<^verbatim>\<open>?\<close>, and an assertion takes none (the error "nothing to repeat").
\<close>

datatype quant = QStar | QPlus | QOpt
datatype pending = PNone | PAtom regex | PQuant quant regex | PFinal regex
datatype gkind = GTop | GGroup | GLook bool
datatype pframe = PFrame gkind "regex list" "regex list" pending
datatype pstate = PS pframe "pframe list" "(bool \<times> citem list) option"

fun mk_quant :: "quant \<Rightarrow> bool \<Rightarrow> regex \<Rightarrow> regex" where
  "mk_quant QStar g a = Star g a"
| "mk_quant QPlus g a = Seq a (Star g a)"
| "mk_quant QOpt g a = Opt g a"

fun flush :: "pending \<Rightarrow> regex list \<Rightarrow> regex list" where
  "flush PNone rs = rs"
| "flush (PAtom a) rs = a # rs"
| "flush (PQuant q a) rs = mk_quant q True a # rs"
| "flush (PFinal r) rs = r # rs"

fun seq_of :: "regex list \<Rightarrow> regex" where
  "seq_of [] = Eps"
| "seq_of [a] = a"
| "seq_of (a # rs) = Seq a (seq_of rs)"

fun alt_of :: "regex list \<Rightarrow> regex" where
  "alt_of [] = Eps"
| "alt_of [a] = a"
| "alt_of (a # rs) = Alt a (alt_of rs)"

fun push :: "pending \<Rightarrow> pframe \<Rightarrow> pframe" where
  "push pd (PFrame g as rs old) = PFrame g as (flush old rs) pd"

fun next_alt :: "pframe \<Rightarrow> pframe" where
  "next_alt (PFrame g as rs old) = PFrame g (seq_of (rev (flush old rs)) # as) [] PNone"

fun close_frame :: "pframe \<Rightarrow> regex" where
  "close_frame (PFrame g as rs old) =
     (let r = alt_of (rev (seq_of (rev (flush old rs)) # as))
      in case g of GLook neg \<Rightarrow> Look neg r | _ \<Rightarrow> r)"

fun quantify :: "quant \<Rightarrow> pframe \<Rightarrow> error + pframe" where
  "quantify q (PFrame g as rs (PAtom a)) = Inr (PFrame g as rs (PQuant q a))"
| "quantify q (PFrame g as rs (PQuant q0 a)) =
     (if q = QOpt then Inr (PFrame g as rs (PFinal (mk_quant q0 False a)))
      else Inl SyntaxError)"
| "quantify q (PFrame g as rs _) = Inl SyntaxError"

definition is_alnum :: "char \<Rightarrow> bool" where
  "is_alnum e = (in_cset Word (of_char e) \<and> e \<noteq> CHR ''_'')"

definition class_escape :: "char \<Rightarrow> (cset \<times> bool) option" where
  "class_escape e =
     (if e = CHR ''s'' then Some (Space, False) else if e = CHR ''S'' then Some (Space, True)
      else if e = CHR ''w'' then Some (Word, False) else if e = CHR ''W'' then Some (Word, True)
      else if e = CHR ''d'' then Some (Digit, False) else if e = CHR ''D'' then Some (Digit, True)
      else None)"

definition control_escape :: "char \<Rightarrow> char option" where
  "control_escape e =
     (if e = CHR ''t'' then Some (CHR 0x09) else if e = CHR ''n'' then Some (CHR 0x0A)
      else if e = CHR ''v'' then Some (CHR 0x0B) else if e = CHR ''f'' then Some (CHR 0x0C)
      else if e = CHR ''r'' then Some (CHR 0x0D) else None)"

text \<open>
  An escaped letter or digit other than the ones above (a backreference, \<^verbatim>\<open>\x\<close>,
  \<^verbatim>\<open>\u\<close>, \<^verbatim>\<open>\c\<close>, ...) is outside the fragment; any other escaped character stands
  for itself.
\<close>

definition atom_escape :: "char \<Rightarrow> error + pending" where
  "atom_escape e =
     (if e = CHR ''b'' then Inr (PFinal (WordB False))
      else if e = CHR ''B'' then Inr (PFinal (WordB True))
      else case class_escape e of Some (s, neg) \<Rightarrow> Inr (PAtom (Cls False [CSet neg s]))
      | None \<Rightarrow> (case control_escape e of Some c \<Rightarrow> Inr (PAtom (Chr c))
      | None \<Rightarrow> if is_alnum e then Inl Unsupported else Inr (PAtom (Chr e))))"

definition in_class_escape :: "char \<Rightarrow> error + citem" where
  "in_class_escape e =
     (if e = CHR ''b'' then Inr (CChar (CHR 0x08))
      else case class_escape e of Some (s, neg) \<Rightarrow> Inr (CSet neg s)
      | None \<Rightarrow> (case control_escape e of Some c \<Rightarrow> Inr (CChar c)
      | None \<Rightarrow> if is_alnum e then Inl Unsupported else Inr (CChar e)))"

definition range_follows :: "string \<Rightarrow> bool" where
  "range_follows cs = (case cs of d # e # _ \<Rightarrow> d = CHR ''-'' \<and> e \<noteq> CHR '']'' | _ \<Rightarrow> False)"

definition new_frame :: "gkind \<Rightarrow> pframe" where
  "new_frame g = PFrame g [] [] PNone"

text \<open>
  \<open>pstep st c cs\<close> reads the character \<open>c\<close> with the lookahead \<open>cs\<close> and returns the
  new state and how many characters of \<open>cs\<close> it has used up as well. The first
  equation is the inside of a character class.
\<close>

fun pstep :: "pstate \<Rightarrow> char \<Rightarrow> string \<Rightarrow> error + (pstate \<times> nat)" where
  "pstep (PS f ps (Some (neg, items))) c cs =
     (if c = CHR '']'' then Inr (PS (push (PAtom (Cls neg (rev items))) f) ps None, 0)
      else if c = bs then
        (case cs of [] \<Rightarrow> Inl SyntaxError
         | e # cs' \<Rightarrow>
            (case in_class_escape e of Inl err \<Rightarrow> Inl err
             | Inr item \<Rightarrow>
                 if range_follows cs' then Inl Unsupported
                 else Inr (PS f ps (Some (neg, item # items)), 1)))
      else if range_follows cs then
        (let e = hd (tl cs) in
         if e = bs then Inl Unsupported
         else if (of_char c :: nat) \<le> of_char e
           then Inr (PS f ps (Some (neg, CRange c e # items)), 2)
         else Inl SyntaxError)
      else Inr (PS f ps (Some (neg, CChar c # items)), 0))"
| "pstep (PS f ps None) c cs =
     (if c = bs then
        (case cs of [] \<Rightarrow> Inl SyntaxError
         | e # _ \<Rightarrow> (case atom_escape e of Inl err \<Rightarrow> Inl err
                      | Inr pd \<Rightarrow> Inr (PS (push pd f) ps None, 1)))
      else if c = CHR ''('' then
        (if take 1 cs = ''?'' then
           (if take 2 cs = ''?:'' then Inr (PS (new_frame GGroup) (f # ps) None, 2)
            else if take 2 cs = ''?!'' then Inr (PS (new_frame (GLook True)) (f # ps) None, 2)
            else if take 2 cs = ''?='' then Inr (PS (new_frame (GLook False)) (f # ps) None, 2)
            else if length cs = 1 then Inl SyntaxError
            else Inl Unsupported)
         else Inr (PS (new_frame GGroup) (f # ps) None, 0))
      else if c = CHR '')'' then
        (case ps of [] \<Rightarrow> Inl SyntaxError
         | p # ps' \<Rightarrow> Inr (PS (push (PAtom (close_frame f)) p) ps' None, 0))
      else if c = CHR ''|'' then Inr (PS (next_alt f) ps None, 0)
      else if c = CHR ''*'' then map_sum id (\<lambda>f'. (PS f' ps None, 0)) (quantify QStar f)
      else if c = CHR ''+'' then map_sum id (\<lambda>f'. (PS f' ps None, 0)) (quantify QPlus f)
      else if c = CHR ''?'' then map_sum id (\<lambda>f'. (PS f' ps None, 0)) (quantify QOpt f)
      else if c = CHR ''['' then
        (if take 1 cs = ''^'' then Inr (PS f ps (Some (True, [])), 1)
         else Inr (PS f ps (Some (False, [])), 0))
      else if c = CHR ''^'' then Inr (PS (push (PFinal Bol) f) ps None, 0)
      else if c = CHR ''$'' then Inr (PS (push (PFinal Eol) f) ps None, 0)
      else if c = CHR ''.'' then Inr (PS (push (PAtom Dot) f) ps None, 0)
      else if c = CHR ''{'' then Inl Unsupported
      else Inr (PS (push (PAtom (Chr c)) f) ps None, 0))"

fun finish :: "pstate \<Rightarrow> error + regex" where
  "finish (PS f [] None) = Inr (close_frame f)"
| "finish _ = Inl SyntaxError"

fun parse :: "pstate \<Rightarrow> string \<Rightarrow> error + regex" where
  "parse st [] = finish st"
| "parse st (c # cs) =
     (case pstep st c cs of Inl e \<Rightarrow> Inl e | Inr (st', n) \<Rightarrow> parse st' (drop n cs))"

subsection \<open>The RegExp object\<close>

text \<open>
  \<open>new_RegExp src ic\<close> is \<^verbatim>\<open>new RegExp(src)\<close> or, with \<open>ic\<close>, \<^verbatim>\<open>new RegExp(src, 'i')\<close>.
  \<open>regex_exec\<close> is the search of a regular expression without the flags \<^verbatim>\<open>g\<close> and
  \<^verbatim>\<open>y\<close>: the leftmost start position with a match, and the text of that match; it
  is what \<^verbatim>\<open>str.match(re)?.[0]\<close> reads. \<open>regex_test\<close> is \<^verbatim>\<open>re.test(str)\<close>.
\<close>

datatype RegExp = RegExp regex bool

definition new_RegExp :: "string \<Rightarrow> bool \<Rightarrow> error + RegExp" where
  "new_RegExp src ic = map_sum id (\<lambda>r. RegExp r ic) (parse (PS (new_frame GTop) [] None) src)"

fun scan :: "bool \<Rightarrow> regex \<Rightarrow> char option \<Rightarrow> string \<Rightarrow> string option" where
  "scan ic r p s =
     (case m ic [R r] p s of
        Some rest \<Rightarrow> Some (take (length s - length rest) s)
      | None \<Rightarrow> (case s of [] \<Rightarrow> None | x # xs \<Rightarrow> scan ic r (Some x) xs))"

declare scan.simps [simp del]

fun regex_exec :: "RegExp \<Rightarrow> string \<Rightarrow> string option" where
  "regex_exec (RegExp r ic) s = scan ic r None s"

definition regex_test :: "RegExp \<Rightarrow> string \<Rightarrow> bool" where
  "regex_test re s = (regex_exec re s \<noteq> None)"

text \<open>
  A regular-expression literal of the source text. A literal is checked when the module
  is loaded, so the literals of \<^verbatim>\<open>patterns.ts\<close> all parse (lemma \<open>literals_parse\<close>
  below); the second branch is never taken and holds the class that matches nothing.
\<close>

definition regex_literal :: "string \<Rightarrow> RegExp" where
  "regex_literal src =
     (case new_RegExp src False of Inr re \<Rightarrow> re | Inl _ \<Rightarrow> RegExp (Cls False []) False)"

section \<open>Rules and matching (patterns.ts)\<close>

subsection \<open>Types\<close>

datatype Action = block | ask

record Pattern =
  pattern :: string
  reason :: string
  action :: Action

datatype ProtectionLevel = zeroAccess | readOnly | noDelete

record ProtectedPath =
  path :: string
  level :: ProtectionLevel

datatype Operation = access | "write" | delete

subsection \<open>The default tables\<close>

definition DEFAULT_PATTERNS :: "Pattern list" where
  "DEFAULT_PATTERNS = [
    \<lparr>pattern = bsl ''rm%s+-rf%s+/'', reason = ''Recursive delete from root'', action = block\<rparr>,
    \<lparr>pattern = bsl '':%(%)% %{:'', reason = ''Fork bomb'', action = block\<rparr>,
    \<lparr>pattern = bsl ''fork%(%)'', reason = ''Fork bomb'', action = block\<rparr>,
    \<lparr>pattern = bsl ''>%s*/dev/sd'', reason = ''Direct device write'', action = block\<rparr>,
    \<lparr>pattern = bsl ''mkfs%.'', reason = ''Format filesystem'', action = block\<rparr>,
    \<lparr>pattern = bsl ''kill%s+-9%s+-1'', reason = ''Kill all processes'', action = block\<rparr>,
    \<lparr>pattern = bsl ''killall%s+-9'', reason = ''Kill all processes'', action = block\<rparr>,
    \<lparr>pattern = bsl ''pkill%s+-9'', reason = ''pkill -9'', action = block\<rparr>,
    \<lparr>pattern = bsl ''shutdown'', reason = ''System shutdown'', action = block\<rparr>,
    \<lparr>pattern = bsl ''reboot'', reason = ''System reboot'', action = block\<rparr>,
    \<lparr>pattern = bsl ''init%s+0'', reason = ''System halt'', action = block\<rparr>,
    \<lparr>pattern = bsl ''format%s+[a-z]:'', reason = ''Windows format'', action = block\<rparr>,
    \<lparr>pattern = bsl ''dd%s+.*of=/dev/'', reason = ''dd writing to device'', action = block\<rparr>,
    \<lparr>pattern = bsl ''DROP%s+TABLE'', reason = ''SQL DROP TABLE'', action = block\<rparr>,
    \<lparr>pattern = bsl ''DROP%s+DATABASE'', reason = ''SQL DROP DATABASE'', action = block\<rparr>,
    \<lparr>pattern = bsl ''DELETE%s+FROM%s+%w+%s*;'', reason = ''SQL DELETE without WHERE clause'', action = block\<rparr>,
    \<lparr>pattern = bsl ''DELETE%s+FROM%s+%w+%s*$'', reason = ''SQL DELETE without WHERE clause'', action = block\<rparr>,
    \<lparr>pattern = bsl ''DELETE%s+%*%s+FROM'', reason = ''SQL DELETE * (will delete ALL rows)'', action = block\<rparr>,
    \<lparr>pattern = bsl ''TRUNCATE%s+TABLE'', reason = ''SQL TRUNCATE TABLE'', action = block\<rparr>,
    \<lparr>pattern = bsl ''DELETE%s+FROM%s+%w+%s+WHERE%b'', reason = ''SQL DELETE with WHERE clause'', action = ask\<rparr>,
    \<lparr>pattern = bsl ''curl.*%|%s*sh'', reason = ''Pipe curl to shell'', action = block\<rparr>,
    \<lparr>pattern = bsl ''wget.*%|%s*sh'', reason = ''Pipe wget to shell'', action = block\<rparr>,
    \<lparr>pattern = bsl ''git%s+push%s+.*--force(?!-with-lease)'', reason = ''git push --force (use --force-with-lease)'', action = block\<rparr>,
    \<lparr>pattern = bsl ''git%s+push%s+(-[^%s]*)*-f%b'', reason = ''git push -f (use --force-with-lease)'', action = block\<rparr>,
    \<lparr>pattern = bsl ''git%s+stash%s+clear'', reason = ''git stash clear (deletes ALL stashes)'', action = block\<rparr>,
    \<lparr>pattern = bsl ''git%s+filter-branch'', reason = ''git filter-branch (rewrites entire history)'', action = block\<rparr>,
    \<lparr>pattern = bsl ''git%s+reflog%s+expire'', reason = ''git reflog expire (destroys recovery mechanism)'', action = block\<rparr>,
    \<lparr>pattern = bsl ''git%s+gc%s+.*--prune=now'', reason = ''git gc --prune=now (can lose dangling commits)'', action = block\<rparr>,
    \<lparr>pattern = bsl ''git%s+reset%s+--hard'', reason = ''git reset --hard (use --soft or stash)'', action = ask\<rparr>,
    \<lparr>pattern = bsl ''git%s+clean%s+(-[^%s]*)*-[fd]'', reason = ''git clean with force/directory flags'', action = ask\<rparr>,
    \<lparr>pattern = bsl ''git%s+checkout%s+--%s*%.'', reason = ''Discard all uncommitted changes'', action = ask\<rparr>,
    \<lparr>pattern = bsl ''git%s+restore%s+%.'', reason = ''Discard all uncommitted changes'', action = ask\<rparr>,
    \<lparr>pattern = bsl ''git%s+stash%s+drop'', reason = ''Permanently deletes a stash'', action = ask\<rparr>,
    \<lparr>pattern = bsl ''git%s+branch%s+(-[^%s]*)*-D'', reason = ''Force delete branch (even if unmerged)'', action = ask\<rparr>,
    \<lparr>pattern = bsl ''git%s+push%s+--delete'', reason = ''Delete remote branch'', action = ask\<rparr>,
    \<lparr>pattern = bsl ''git%s+push%s+%S+%s+:%S+'', reason = ''Delete remote branch (refspec syntax)'', action = ask\<rparr>,
    \<lparr>pattern = bsl ''docker%s+rm%s+.*-f.*%$%(docker%s+ps'', reason = ''docker rm -f $(docker ps) (force removes containers)'', action = block\<rparr>,
    \<lparr>pattern = bsl ''gcloud%s+storage%s+rm%s+.*-r'', reason = ''gcloud storage rm -r (recursive delete)'', action = ask\<rparr>,
    \<lparr>pattern = bsl ''sudo%s+rm%b'', reason = ''sudo rm'', action = block\<rparr>,
    \<lparr>pattern = bsl ''%brm%s+(-[^%s]*)*-[rRf]'', reason = ''rm with recursive or force flags'', action = ask\<rparr>,
    \<lparr>pattern = bsl ''%brm%s+--recursive'', reason = ''rm with --recursive flag'', action = ask\<rparr>,
    \<lparr>pattern = bsl ''%brm%s+--force'', reason = ''rm with --force flag'', action = ask\<rparr>,
    \<lparr>pattern = bsl ''%brmdir%s+--ignore-fail-on-non-empty'', reason = ''rmdir ignore-fail'', action = ask\<rparr>,
    \<lparr>pattern = bsl ''chmod%s+(-[^%s]+%s+)*777'', reason = ''chmod 777 (world writable)'', action = ask\<rparr>,
    \<lparr>pattern = bsl ''chmod%s+-[Rr].*777'', reason = ''Recursive chmod 777'', action = ask\<rparr>,
    \<lparr>pattern = bsl ''chown%s+-[Rr]'', reason = ''Recursive ownership change'', action = ask\<rparr>,
    \<lparr>pattern = bsl ''terraform%s+destroy'', reason = ''terraform destroy'', action = block\<rparr>,
    \<lparr>pattern = bsl ''pulumi%s+destroy'', reason = ''pulumi destroy'', action = block\<rparr>,
    \<lparr>pattern = bsl ''aws%s+s3%s+rm%s+.*--recursive'', reason = ''aws s3 rm --recursive'', action = block\<rparr>,
    \<lparr>pattern = bsl ''aws%s+s3%s+rb%s+.*--force'', reason = ''aws s3 rb --force'', action = block\<rparr>,
    \<lparr>pattern = bsl ''aws%s+ec2%s+terminate-instances'', reason = ''aws ec2 terminate-instances'', action = ask\<rparr>,
    \<lparr>pattern = bsl ''aws%s+rds%s+delete-db-instance'', reason = ''aws rds delete-db-instance'', action = ask\<rparr>,
    \<lparr>pattern = bsl ''aws%s+cloudformation%s+delete-stack'', reason = ''aws cloudformation delete-stack'', action = ask\<rparr>,
    \<lparr>pattern = bsl ''aws%s+dynamodb%s+delete-table'', reason = ''aws dynamodb delete-table'', action = ask\<rparr>,
    \<lparr>pattern = bsl ''aws%s+eks%s+delete-cluster'', reason = ''aws eks delete-cluster'', action = ask\<rparr>,
    \<lparr>pattern = bsl ''aws%s+lambda%s+delete-function'', reason = ''aws lambda delete-function'', action = ask\<rparr>,
    \<lparr>pattern = bsl ''aws%s+iam%s+delete-role'', reason = ''aws iam delete-role'', action = ask\<rparr>,
    \<lparr>pattern = bsl ''aws%s+iam%s+delete-user'', reason = ''aws iam delete-user'', action = ask\<rparr>,
    \<lparr>pattern = bsl ''gcloud%s+projects%s+delete'', reason = ''gcloud projects delete'', action = block\<rparr>,
    \<lparr>pattern = bsl ''gcloud%s+compute%s+instances%s+delete'', reason = ''gcloud compute instances delete'', action = ask\<rparr>,
    \<lparr>pattern = bsl ''gcloud%s+sql%s+instances%s+delete'', reason = ''gcloud sql instances delete'', action = ask\<rparr>,
    \<lparr>pattern = bsl ''gcloud%s+container%s+clusters%s+delete'', reason = ''gcloud container clusters delete'', action = ask\<rparr>,
    \<lparr>pattern = bsl ''gcloud%s+functions%s+delete'', reason = ''gcloud functions delete'', action = ask\<rparr>,
    \<lparr>pattern = bsl ''gcloud%s+iam%s+service-accounts%s+delete'', reason = ''gcloud iam service-accounts delete'', action = ask\<rparr>,
    \<lparr>pattern = bsl ''docker%s+system%s+prune%s+.*-a'', reason = ''docker system prune -a'', action = ask\<rparr>,
    \<lparr>pattern = bsl ''docker%s+rmi%s+.*-f'', reason = ''docker rmi -f (force removes images)'', action = ask\<rparr>,
    \<lparr>pattern = bsl ''docker%s+volume%s+rm'', reason = ''docker volume rm (data loss)'', action = ask\<rparr>,
    \<lparr>pattern = bsl ''docker%s+volume%s+prune'', reason = ''docker volume prune'', action = ask\<rparr>,
    \<lparr>pattern = bsl ''kubectl%s+delete%s+namespace'', reason = ''kubectl delete namespace'', action = ask\<rparr>,
    \<lparr>pattern = bsl ''kubectl%s+delete%s+all%s+--all'', reason = ''kubectl delete all --all'', action = block\<rparr>,
    \<lparr>pattern = bsl ''kubectl%s+delete%s+.*--all%s+--all-namespaces'', reason = ''kubectl delete across all namespaces'', action = block\<rparr>,
    \<lparr>pattern = bsl ''helm%s+uninstall'', reason = ''helm uninstall'', action = ask\<rparr>,
    \<lparr>pattern = bsl ''redis-cli%s+FLUSHALL'', reason = ''redis FLUSHALL'', action = block\<rparr>,
    \<lparr>pattern = bsl ''redis-cli%s+FLUSHDB'', reason = ''redis FLUSHDB'', action = ask\<rparr>,
    \<lparr>pattern = bsl ''dropdb%b'', reason = ''PostgreSQL dropdb'', action = block\<rparr>,
    \<lparr>pattern = bsl ''mysqladmin%s+drop'', reason = ''MySQL drop database'', action = block\<rparr>,
    \<lparr>pattern = bsl ''mongosh.*dropDatabase'', reason = ''MongoDB dropDatabase'', action = block\<rparr>,
    \<lparr>pattern = bsl ''mongo.*dropDatabase'', reason = ''MongoDB dropDatabase (legacy shell)'', action = block\<rparr>,
    \<lparr>pattern = bsl ''vercel%s+remove%s+.*--yes'', reason = ''vercel remove --yes'', action = ask\<rparr>,
    \<lparr>pattern = bsl ''vercel%s+projects%s+rm'', reason = ''vercel projects rm'', action = ask\<rparr>,
    \<lparr>pattern = bsl ''vercel%s+env%s+rm%s+.*--yes'', reason = ''vercel env rm --yes'', action = ask\<rparr>,
    \<lparr>pattern = bsl ''netlify%s+sites:delete'', reason = ''netlify sites:delete'', action = ask\<rparr>,
    \<lparr>pattern = bsl ''netlify%s+functions:delete'', reason = ''netlify functions:delete'', action = ask\<rparr>,
    \<lparr>pattern = bsl ''heroku%s+apps:destroy'', reason = ''heroku apps:destroy'', action = ask\<rparr>,
    \<lparr>pattern = bsl ''heroku%s+pg:reset'', reason = ''heroku pg:reset'', action = ask\<rparr>,
    \<lparr>pattern = bsl ''fly%s+apps%s+destroy'', reason = ''fly apps destroy'', action = ask\<rparr>,
    \<lparr>pattern = bsl ''fly%s+destroy'', reason = ''fly destroy'', action = ask\<rparr>,
    \<lparr>pattern = bsl ''wrangler%s+delete'', reason = ''wrangler delete (Cloudflare Worker)'', action = ask\<rparr>,
    \<lparr>pattern = bsl ''wrangler%s+r2%s+bucket%s+delete'', reason = ''wrangler r2 bucket delete'', action = ask\<rparr>,
    \<lparr>pattern = bsl ''wrangler%s+kv:namespace%s+delete'', reason = ''wrangler kv:namespace delete'', action = ask\<rparr>,
    \<lparr>pattern = bsl ''wrangler%s+d1%s+delete'', reason = ''wrangler d1 delete'', action = ask\<rparr>,
    \<lparr>pattern = bsl ''wrangler%s+queues%s+delete'', reason = ''wrangler queues delete'', action = ask\<rparr>,
    \<lparr>pattern = bsl ''firebase%s+projects:delete'', reason = ''firebase projects:delete'', action = block\<rparr>,
    \<lparr>pattern = bsl ''firebase%s+firestore:delete%s+.*--all-collections'', reason = ''firebase firestore:delete --all-collections'', action = block\<rparr>,
    \<lparr>pattern = bsl ''firebase%s+database:remove'', reason = ''firebase database:remove'', action = ask\<rparr>,
    \<lparr>pattern = bsl ''firebase%s+hosting:disable'', reason = ''firebase hosting:disable'', action = ask\<rparr>,
    \<lparr>pattern = bsl ''firebase%s+functions:delete'', reason = ''firebase functions:delete'', action = ask\<rparr>,
    \<lparr>pattern = bsl ''serverless%s+remove'', reason = ''serverless remove (removes stack)'', action = ask\<rparr>,
    \<lparr>pattern = bsl ''sls%s+remove'', reason = ''sls remove (removes stack)'', action = ask\<rparr>,
    \<lparr>pattern = bsl ''sam%s+delete'', reason = ''sam delete (deletes SAM application)'', action = ask\<rparr>,
    \<lparr>pattern = bsl ''doctl%s+compute%s+droplet%s+delete'', reason = ''doctl droplet delete'', action = ask\<rparr>,
    \<lparr>pattern = bsl ''doctl%s+databases%s+delete'', reason = ''doctl databases delete'', action = ask\<rparr>,
    \<lparr>pattern = bsl ''supabase%s+db%s+reset'', reason = ''supabase db reset'', action = ask\<rparr>,
    \<lparr>pattern = bsl ''npm%s+unpublish'', reason = ''npm unpublish'', action = block\<rparr>,
    \<lparr>pattern = bsl ''gh%s+repo%s+delete'', reason = ''gh repo delete'', action = block\<rparr>,
    \<lparr>pattern = bsl ''history%s+-c'', reason = ''Clear shell history'', action = ask\<rparr>
  ]"

definition DEFAULT_PROTECTED_PATHS :: "ProtectedPath list" where
  "DEFAULT_PROTECTED_PATHS = [
    \<lparr>path = ''~/.ssh'', level = zeroAccess\<rparr>,
    \<lparr>path = ''~/.aws'', level = zeroAccess\<rparr>,
    \<lparr>path = ''~/.gnupg'', level = zeroAccess\<rparr>,
    \<lparr>path = ''~/.config/gcloud'', level = zeroAccess\<rparr>,
    \<lparr>path = ''~/.azure'', level = zeroAccess\<rparr>,
    \<lparr>path = ''~/.kube'', level = zeroAccess\<rparr>,
    \<lparr>path = ''~/.docker'', level = zeroAccess\<rparr>,
    \<lparr>path = ''/etc/passwd'', level = zeroAccess\<rparr>,
    \<lparr>path = ''/etc/shadow'', level = zeroAccess\<rparr>,
    \<lparr>path = ''~/.config/opencode'', level = zeroAccess\<rparr>,
    \<lparr>path = ''~/.netrc'', level = zeroAccess\<rparr>,
    \<lparr>path = ''~/.npmrc'', level = zeroAccess\<rparr>,
    \<lparr>path = ''~/.pypirc'', level = zeroAccess\<rparr>,
    \<lparr>path = ''~/.git-credentials'', level = zeroAccess\<rparr>,
    \<lparr>path = ''.git-credentials'', level = zeroAccess\<rparr>,
    \<lparr>path = ''.env*'', level = zeroAccess\<rparr>,
    \<lparr>path = ''*.pem'', level = zeroAccess\<rparr>,
    \<lparr>path = ''*.key'', level = zeroAccess\<rparr>,
    \<lparr>path = ''*.p12'', level = zeroAccess\<rparr>,
    \<lparr>path = ''*.pfx'', level = zeroAccess\<rparr>,
    \<lparr>path = ''*.tfstate*'', level = zeroAccess\<rparr>,
    \<lparr>path = ''.terraform/'', level = zeroAccess\<rparr>,
    \<lparr>path = ''*-credentials.json'', level = zeroAccess\<rparr>,
    \<lparr>path = ''*serviceAccount*.json'', level = zeroAccess\<rparr>,
    \<lparr>path = ''*service-account*.json'', level = zeroAccess\<rparr>,
    \<lparr>path = ''serviceAccountKey.json'', level = zeroAccess\<rparr>,
    \<lparr>path = ''kubeconfig'', level = zeroAccess\<rparr>,
    \<lparr>path = ''*-secret.yaml'', level = zeroAccess\<rparr>,
    \<lparr>path = ''secrets.yaml'', level = zeroAccess\<rparr>,
    \<lparr>path = ''.vercel/'', level = zeroAccess\<rparr>,
    \<lparr>path = ''.netlify/'', level = zeroAccess\<rparr>,
    \<lparr>path = ''firebase-adminsdk*.json'', level = zeroAccess\<rparr>,
    \<lparr>path = ''.supabase/'', level = zeroAccess\<rparr>,
    \<lparr>path = ''dump.sql'', level = zeroAccess\<rparr>,
    \<lparr>path = ''backup.sql'', level = zeroAccess\<rparr>,
    \<lparr>path = ''*.dump'', level = zeroAccess\<rparr>,
    \<lparr>path = ''/etc/'', level = readOnly\<rparr>,
    \<lparr>path = ''/usr/'', level = readOnly\<rparr>,
    \<lparr>path = ''/bin/'', level = readOnly\<rparr>,
    \<lparr>path = ''/sbin/'', level = readOnly\<rparr>,
    \<lparr>path = ''/boot/'', level = readOnly\<rparr>,
    \<lparr>path = ''/root/'', level = readOnly\<rparr>,
    \<lparr>path = ''~/.bash_history'', level = readOnly\<rparr>,
    \<lparr>path = ''~/.zsh_history'', level = readOnly\<rparr>,
    \<lparr>path = ''~/.node_repl_history'', level = readOnly\<rparr>,
    \<lparr>path = ''~/.bashrc'', level = readOnly\<rparr>,
    \<lparr>path = ''~/.zshrc'', level = readOnly\<rparr>,
    \<lparr>path = ''~/.profile'', level = readOnly\<rparr>,
    \<lparr>path = ''~/.bash_profile'', level = readOnly\<rparr>,
    \<lparr>path = ''package-lock.json'', level = readOnly\<rparr>,
    \<lparr>path = ''yarn.lock'', level = readOnly\<rparr>,
    \<lparr>path = ''pnpm-lock.yaml'', level = readOnly\<rparr>,
    \<lparr>path = ''Gemfile.lock'', level = readOnly\<rparr>,
    \<lparr>path = ''Cargo.lock'', level = readOnly\<rparr>,
    \<lparr>path = ''poetry.lock'', level = readOnly\<rparr>,
    \<lparr>path = ''composer.lock'', level = readOnly\<rparr>,
    \<lparr>path = ''go.sum'', level = readOnly\<rparr>,
    \<lparr>path = ''Pipfile.lock'', level = readOnly\<rparr>,
    \<lparr>path = ''flake.lock'', level = readOnly\<rparr>,
    \<lparr>path = ''bun.lockb'', level = readOnly\<rparr>,
    \<lparr>path = ''uv.lock'', level = readOnly\<rparr>,
    \<lparr>path = ''npm-shrinkwrap.json'', level = readOnly\<rparr>,
    \<lparr>path = ''*.lock'', level = readOnly\<rparr>,
    \<lparr>path = ''*.lockb'', level = readOnly\<rparr>,
    \<lparr>path = ''*.min.js'', level = readOnly\<rparr>,
    \<lparr>path = ''*.min.css'', level = readOnly\<rparr>,
    \<lparr>path = ''*.bundle.js'', level = readOnly\<rparr>,
    \<lparr>path = ''*.chunk.js'', level = readOnly\<rparr>,
    \<lparr>path = ''dist/'', level = readOnly\<rparr>,
    \<lparr>path = ''build/'', level = readOnly\<rparr>,
    \<lparr>path = ''out/'', level = readOnly\<rparr>,
    \<lparr>path = ''.next/'', level = readOnly\<rparr>,
    \<lparr>path = ''.nuxt/'', level = readOnly\<rparr>,
    \<lparr>path = ''.output/'', level = readOnly\<rparr>,
    \<lparr>path = ''node_modules/'', level = readOnly\<rparr>,
    \<lparr>path = ''__pycache__/'', level = readOnly\<rparr>,
    \<lparr>path = ''.venv/'', level = readOnly\<rparr>,
    \<lparr>path = ''venv/'', level = readOnly\<rparr>,
    \<lparr>path = ''target/'', level = readOnly\<rparr>,
    \<lparr>path = ''~/.claude/'', level = noDelete\<rparr>,
    \<lparr>path = ''CLAUDE.md'', level = noDelete\<rparr>,
    \<lparr>path = ''LICENSE*'', level = noDelete\<rparr>,
    \<lparr>path = ''COPYING*'', level = noDelete\<rparr>,
    \<lparr>path = ''NOTICE'', level = noDelete\<rparr>,
    \<lparr>path = ''PATENTS'', level = noDelete\<rparr>,
    \<lparr>path = ''README*'', level = noDelete\<rparr>,
    \<lparr>path = ''CONTRIBUTING.md'', level = noDelete\<rparr>,
    \<lparr>path = ''CHANGELOG.md'', level = noDelete\<rparr>,
    \<lparr>path = ''CODE_OF_CONDUCT.md'', level = noDelete\<rparr>,
    \<lparr>path = ''SECURITY.md'', level = noDelete\<rparr>,
    \<lparr>path = ''.git/'', level = noDelete\<rparr>,
    \<lparr>path = ''.gitignore'', level = noDelete\<rparr>,
    \<lparr>path = ''.gitattributes'', level = noDelete\<rparr>,
    \<lparr>path = ''.gitmodules'', level = noDelete\<rparr>,
    \<lparr>path = ''.github/'', level = noDelete\<rparr>,
    \<lparr>path = ''.gitlab-ci.yml'', level = noDelete\<rparr>,
    \<lparr>path = ''.circleci/'', level = noDelete\<rparr>,
    \<lparr>path = ''Jenkinsfile'', level = noDelete\<rparr>,
    \<lparr>path = ''.travis.yml'', level = noDelete\<rparr>,
    \<lparr>path = ''azure-pipelines.yml'', level = noDelete\<rparr>,
    \<lparr>path = ''Dockerfile*'', level = noDelete\<rparr>,
    \<lparr>path = ''docker-compose*.yml'', level = noDelete\<rparr>,
    \<lparr>path = ''.dockerignore'', level = noDelete\<rparr>
  ]"

subsection \<open>String primitives of the host language\<close>

text \<open>\<^verbatim>\<open>s.includes(sub)\<close>: \<open>sub\<close> occurs in \<open>s\<close> as a contiguous substring.\<close>

definition "includes" :: "string \<Rightarrow> string \<Rightarrow> bool" where
  "includes s sub = sublist sub s"

text \<open>
  \<^verbatim>\<open>s.replace(c, template)\<close> for a search string of one character: the first
  occurrence is replaced, and the replacement text is the template with its
  \<^verbatim>\<open>$\<close> patterns expanded (\<^verbatim>\<open>$$\<close>, \<^verbatim>\<open>$&\<close>, the text before and the text after the
  match; without capture groups every other \<^verbatim>\<open>$\<close> stands for itself).
\<close>

fun getSubstitution :: "string \<Rightarrow> string \<Rightarrow> string \<Rightarrow> string \<Rightarrow> string" where
  "getSubstitution matched front back (c # d # cs) =
     (if c = CHR ''$'' \<and> d = CHR ''$'' then CHR ''$'' # getSubstitution matched front back cs
      else if c = CHR ''$'' \<and> d = CHR ''&'' then matched @ getSubstitution matched front back cs
      else if c = CHR ''$'' \<and> d = CHR 0x60 then front @ getSubstitution matched front back cs
      else if c = CHR ''$'' \<and> d = CHR 0x27 then back @ getSubstitution matched front back cs
      else c # getSubstitution matched front back (d # cs))"
| "getSubstitution matched front back cs = cs"

definition replace_first :: "string \<Rightarrow> char \<Rightarrow> string \<Rightarrow> string" where
  "replace_first s c template =
     (let front = takeWhile (\<lambda>x. x \<noteq> c) s in
      case dropWhile (\<lambda>x. x \<noteq> c) s of
        [] \<Rightarrow> s
      | _ # back \<Rightarrow> front @ getSubstitution [c] front back template @ back)"

text \<open>\<^verbatim>\<open>process.env.HOME || ''\<close>\<close>

definition home_value :: "string option \<Rightarrow> string" where
  "home_value env = (case env of None \<Rightarrow> [] | Some h \<Rightarrow> h)"

text \<open>
  \<^verbatim>\<open>s.split(/\s+/)\<close>: the pieces between the maximal runs of white space, with an empty
  first piece when \<open>s\<close> starts with white space and an empty last piece when it ends
  with it.
\<close>

definition is_space :: "char \<Rightarrow> bool" where
  "is_space c = in_cset Space (of_char c)"

function split_ws_from :: "string \<Rightarrow> string \<Rightarrow> string list" where
  "split_ws_from acc [] = [rev acc]"
| "split_ws_from acc (c # cs) =
     (if is_space c then rev acc # split_ws_from [] (dropWhile is_space cs)
      else split_ws_from (c # acc) cs)"
  by pat_completeness auto
termination
  by (relation "measure (\<lambda>(acc, s). length s)")
     (auto simp: less_Suc_eq_le length_dropWhile_le)

definition split_ws :: "string \<Rightarrow> string list" where
  "split_ws s = split_ws_from [] s"

subsection \<open>Helpers\<close>

text \<open>
  \<^verbatim>\<open>matchPattern\<close>: the loop over the patterns. \<^verbatim>\<open>new RegExp\<close> throws on an invalid
  pattern source, and that ends the loop. The match text is
  \<^verbatim>\<open>command.match(regex)?.[0] || p.pattern\<close>: the empty string is falsy.
\<close>

fun matchPattern :: "string \<Rightarrow> Pattern list \<Rightarrow> error + (string \<times> Pattern) option" where
  "matchPattern command [] = Inr None"
| "matchPattern command (p # ps) =
     (case new_RegExp (pattern p) True of
        Inl e \<Rightarrow> Inl e
      | Inr regex \<Rightarrow>
          if regex_test regex command
          then Inr (Some (case regex_exec regex command of
                            None \<Rightarrow> pattern p
                          | Some t \<Rightarrow> if t = [] then pattern p else t, p))
          else matchPattern command ps)"

text \<open>
  \<^verbatim>\<open>globToRegex\<close>. The first replacement puts a backslash before each character of
  the class \<^verbatim>\<open>[.+^${}()|[\]\\]\<close>; the second turns each \<^verbatim>\<open>*\<close> into \<^verbatim>\<open>.*\<close>.
\<close>

definition escape_meta :: "string \<Rightarrow> string" where
  "escape_meta glob =
     concat (map (\<lambda>c. if c \<in> set ''.+^${}()|[]'' \<or> c = bs then [bs, c] else [c]) glob)"

definition star_to_any :: "string \<Rightarrow> string" where
  "star_to_any escaped = concat (map (\<lambda>c. if c = CHR ''*'' then ''.*'' else [c]) escaped)"

definition globToRegex :: "string \<Rightarrow> error + RegExp" where
  "globToRegex glob = new_RegExp (''^'' @ star_to_any (escape_meta glob) @ ''$'') False"

definition isGlobPattern :: "string \<Rightarrow> bool" where
  "isGlobPattern p = (CHR ''*'' \<in> set p)"

definition basename :: "string \<Rightarrow> string" where
  "basename filePath =
     (let trimmed = rev (dropWhile (\<lambda>c. c = CHR ''/'') (rev filePath))
      in rev (takeWhile (\<lambda>c. c \<noteq> CHR ''/'') (rev trimmed)))"

definition expandHome :: "string option \<Rightarrow> string \<Rightarrow> string" where
  "expandHome env p = replace_first p (CHR ''~'') (home_value env)"

fun checkPathProtection ::
  "string option \<Rightarrow> string \<Rightarrow> ProtectedPath list \<Rightarrow> error + ProtectedPath option" where
  "checkPathProtection env filePath [] = Inr None"
| "checkPathProtection env filePath (p # ps) =
     (if isGlobPattern (path p) then
        (case globToRegex (path p) of
           Inl e \<Rightarrow> Inl e
         | Inr regex \<Rightarrow>
             if regex_test regex (basename filePath) then Inr (Some p)
             else checkPathProtection env filePath ps)
      else
        (let expandedPath = replace_first (path p) (CHR ''~'') (home_value env) in
         if includes filePath expandedPath \<or> includes filePath (path p) then Inr (Some p)
         else checkPathProtection env filePath ps))"

subsection \<open>Shell operation classifiers\<close>

text \<open>The two catalogues: the source text of each literal, and the literals.\<close>

definition SHELL_WRITE_SOURCES :: "string list" where
  "SHELL_WRITE_SOURCES = map bsl [
    ''(?:^|[;&|]%s*)(?:>|>>)%s*'',
    ''%btee%s+(?:-a%s+)?'',
    ''%bsed%s+(-[^%s]*%s+)*-i'',
    ''%bsed%s+--in-place'',
    ''%bcp%s+'',
    ''%bmv%s+'',
    ''%bchmod%s+'',
    ''%bchown%s+'',
    ''%bln%s+'',
    ''%binstall%s+'',
    ''%bpatch%s+'',
    ''%btruncate%s+'',
    ''%bdd%s+'',
    ''%btouch%s+'',
    ''%bmkdir%s+'',
    ''%becho%s+.*(?:>|>>)%s*'',
    ''%bprintf%s+.*(?:>|>>)%s*'',
    ''%bcat%s+.*(?:>|>>)%s*''
  ]"

definition SHELL_DELETE_SOURCES :: "string list" where
  "SHELL_DELETE_SOURCES = map bsl [
    ''%brm%s+'',
    ''%bunlink%s+'',
    ''%brmdir%s+'',
    ''%bshred%s+''
  ]"

definition SHELL_WRITE_OPS :: "RegExp list" where
  "SHELL_WRITE_OPS = map regex_literal SHELL_WRITE_SOURCES"

definition SHELL_DELETE_OPS :: "RegExp list" where
  "SHELL_DELETE_OPS = map regex_literal SHELL_DELETE_SOURCES"

definition commandReferencesPath :: "string option \<Rightarrow> string \<Rightarrow> string \<Rightarrow> error + bool" where
  "commandReferencesPath env command protPath =
     (if isGlobPattern protPath then
        (case globToRegex protPath of
           Inl e \<Rightarrow> Inl e
         | Inr regex \<Rightarrow>
             Inr (list_ex (\<lambda>token. let name = basename token
                                    in name \<noteq> [] \<and> regex_test regex name)
                    (split_ws command)))
      else
        (let expanded = replace_first protPath (CHR ''~'') (home_value env)
         in Inr (includes command expanded \<or> includes command protPath)))"

definition isShellWrite :: "string option \<Rightarrow> string \<Rightarrow> string \<Rightarrow> error + bool" where
  "isShellWrite env command protPath =
     (case commandReferencesPath env command protPath of
        Inl e \<Rightarrow> Inl e
      | Inr referenced \<Rightarrow>
          if \<not> referenced then Inr False
          else Inr (list_ex (\<lambda>opr. regex_test opr command) SHELL_WRITE_OPS))"

definition isShellDelete :: "string option \<Rightarrow> string \<Rightarrow> string \<Rightarrow> error + bool" where
  "isShellDelete env command protPath =
     (case commandReferencesPath env command protPath of
        Inl e \<Rightarrow> Inl e
      | Inr referenced \<Rightarrow>
          if \<not> referenced then Inr False
          else Inr (list_ex (\<lambda>opr. regex_test opr command) SHELL_DELETE_OPS))"

text \<open>
  \<^verbatim>\<open>checkShellPathViolation\<close>. \<open>ruleViolation\<close> is the body of the loop, the
  \<^verbatim>\<open>switch\<close> on the level of one rule: the operation it reports, or None when
  the loop goes on to the next rule.
\<close>

definition ruleViolation ::
  "string option \<Rightarrow> string \<Rightarrow> ProtectedPath \<Rightarrow> error + Operation option" where
  "ruleViolation env command p =
     (case level p of
        zeroAccess \<Rightarrow>
          (case commandReferencesPath env command (path p) of
             Inl e \<Rightarrow> Inl e
           | Inr b \<Rightarrow> Inr (if b then Some access else None))
      | readOnly \<Rightarrow>
          (case isShellWrite env command (path p) of
             Inl e \<Rightarrow> Inl e
           | Inr w \<Rightarrow>
               if w then Inr (Some write)
               else (case isShellDelete env command (path p) of
                       Inl e \<Rightarrow> Inl e
                     | Inr d \<Rightarrow> Inr (if d then Some delete else None)))
      | noDelete \<Rightarrow>
          (case isShellDelete env command (path p) of
             Inl e \<Rightarrow> Inl e
           | Inr d \<Rightarrow> Inr (if d then Some delete else None)))"

fun checkShellPathViolation ::
  "string option \<Rightarrow> string \<Rightarrow> ProtectedPath list
     \<Rightarrow> error + (ProtectedPath \<times> Operation) option" where
  "checkShellPathViolation env command [] = Inr None"
| "checkShellPathViolation env command (p # ps) =
     (case ruleViolation env command p of
        Inl e \<Rightarrow> Inl e
      | Inr (Some operation) \<Rightarrow> Inr (Some (p, operation))
      | Inr None \<Rightarrow> checkShellPathViolation env command ps)"

section \<open>Configuration (config.ts)\<close>

subsection \<open>Config types\<close>

datatype LevelOrNone = Level ProtectionLevel | none

record PatternsConfig =
  pat_add :: "Pattern list option"
  pat_remove :: "string list option"
  pat_override :: "(string \<times> Action) list option"

record PathsConfig =
  path_add :: "ProtectedPath list option"
  path_remove :: "string list option"
  path_override :: "(string \<times> LevelOrNone) list option"

record DamageControlConfig =
  patterns :: "PatternsConfig option"
  paths :: "PathsConfig option"

text \<open>
  The value that \<^verbatim>\<open>JSON.parse\<close> returns. An object is the list of its own properties
  in enumeration order, with distinct keys. The code never computes with a number and
  only ever prints it, so a number is carried as the text that printing gives.
\<close>

datatype json =
    JNull
  | JBool bool
  | JNum string
  | JStr string
  | JArr "json list"
  | JObj "(string \<times> json) list"

subsection \<open>Operations of the host language on untyped values\<close>

fun sequence :: "('e + 'a) list \<Rightarrow> 'e + 'a list" where
  "sequence [] = Inr []"
| "sequence (x # xs) =
     (case x of
        Inl e \<Rightarrow> Inl e
      | Inr v \<Rightarrow> (case sequence xs of Inl e \<Rightarrow> Inl e | Inr vs \<Rightarrow> Inr (v # vs)))"

fun join :: "string \<Rightarrow> string list \<Rightarrow> string" where
  "join sep [] = []"
| "join sep [x] = x"
| "join sep (x # xs) = x @ sep @ join sep xs"

text \<open>
  The conversion to a string that a template literal applies to \<^verbatim>\<open>${val}\<close>. An array
  prints its elements separated by commas, \<^verbatim>\<open>null\<close> elements as the empty string. An
  object is converted by calling its \<^verbatim>\<open>toString\<close> and then its \<^verbatim>\<open>valueOf\<close>: a
  parsed object inherits both, the first giving \<^verbatim>\<open>[object Object]\<close>; an own property
  named \<^verbatim>\<open>toString\<close> hides the inherited method and is not callable, the inherited
  \<^verbatim>\<open>valueOf\<close> (or an own property of that name) gives no primitive either, and the
  conversion throws a TypeError.
\<close>

fun toString :: "json \<Rightarrow> error + string" where
  "toString JNull = Inr ''null''"
| "toString (JBool b) = Inr (if b then ''true'' else ''false'')"
| "toString (JNum r) = Inr r"
| "toString (JStr s) = Inr s"
| "toString (JArr xs) =
     map_sum id (join '','')
       (sequence (map (\<lambda>x. if x = JNull then Inr [] else toString x) xs))"
| "toString (JObj kvs) =
     (if ''toString'' \<in> fst ` set kvs then Inl TypeError else Inr ''[object Object]'')"

text \<open>The decimal digits of an array index, as \<^verbatim>\<open>${i}\<close> prints it.\<close>

fun show_nat :: "nat \<Rightarrow> string" where
  "show_nat n =
     (if n < 10 then [char_of (48 + n)]
      else show_nat (n div 10) @ [char_of (48 + n mod 10)])"

text \<open>\<^verbatim>\<open>JSON.stringify\<close> of a string: the quoted string with its escapes.\<close>

definition hex_digit :: "nat \<Rightarrow> char" where
  "hex_digit n = (if n < 10 then char_of (48 + n) else char_of (87 + n))"

definition quote_char :: "char \<Rightarrow> string" where
  "quote_char c =
     (let n = (of_char c :: nat) in
      if n = 34 then [bs, c]
      else if n = 92 then [bs, c]
      else if n = 8 then [bs, CHR ''b'']
      else if n = 9 then [bs, CHR ''t'']
      else if n = 10 then [bs, CHR ''n'']
      else if n = 12 then [bs, CHR ''f'']
      else if n = 13 then [bs, CHR ''r'']
      else if n < 32 then [bs, CHR ''u'', CHR ''0'', CHR ''0'', hex_digit (n div 16), hex_digit (n mod 16)]
      else [c])"

definition JSON_stringify :: "string \<Rightarrow> string" where
  "JSON_stringify s = [CHR 0x22] @ concat (map quote_char s) @ [CHR 0x22]"

subsection \<open>Validation\<close>

definition isObject :: "json \<Rightarrow> bool" where
  "isObject v = (case v of JObj _ \<Rightarrow> True | _ \<Rightarrow> False)"

text \<open>Reading a property: None is \<^verbatim>\<open>undefined\<close>.\<close>

definition get_prop :: "json \<Rightarrow> string \<Rightarrow> json option" where
  "get_prop v k = (case v of JObj kvs \<Rightarrow> map_of kvs k | _ \<Rightarrow> None)"

definition is_string :: "json option \<Rightarrow> bool" where
  "is_string v = (case v of Some (JStr _) \<Rightarrow> True | _ \<Rightarrow> False)"

definition string_of :: "json option \<Rightarrow> string" where
  "string_of v = (case v of Some (JStr s) \<Rightarrow> s | _ \<Rightarrow> [])"

text \<open>
  \<^verbatim>\<open>VALID_ACTIONS.has(v)\<close> and \<^verbatim>\<open>VALID_LEVELS.has(v)\<close>, with the member found.
\<close>

definition VALID_ACTIONS :: "json option \<Rightarrow> Action option" where
  "VALID_ACTIONS v =
     (if v = Some (JStr ''block'') then Some block
      else if v = Some (JStr ''ask'') then Some ask
      else None)"

definition VALID_LEVELS :: "json option \<Rightarrow> LevelOrNone option" where
  "VALID_LEVELS v =
     (if v = Some (JStr ''zeroAccess'') then Some (Level zeroAccess)
      else if v = Some (JStr ''readOnly'') then Some (Level readOnly)
      else if v = Some (JStr ''noDelete'') then Some (Level noDelete)
      else if v = Some (JStr ''none'') then Some none
      else None)"

definition isValidPattern :: "json \<Rightarrow> bool" where
  "isValidPattern v =
     (isObject v \<and> is_string (get_prop v ''pattern'') \<and> is_string (get_prop v ''reason'')
      \<and> VALID_ACTIONS (get_prop v ''action'') \<noteq> None)"

definition isValidProtectedPath :: "json \<Rightarrow> bool" where
  "isValidProtectedPath v =
     (isObject v \<and> is_string (get_prop v ''path'') \<and> VALID_LEVELS (get_prop v ''level'') \<noteq> None
      \<and> get_prop v ''level'' \<noteq> Some (JStr ''none''))"

text \<open>
  The casts \<^verbatim>\<open>p.add[i] as Pattern\<close> and \<^verbatim>\<open>p.add[i] as ProtectedPath\<close> behind the two
  guards: the typed view of an accepted element.
\<close>

definition asPattern :: "json \<Rightarrow> Pattern option" where
  "asPattern v =
     (if isValidPattern v
      then (case VALID_ACTIONS (get_prop v ''action'') of
              Some a \<Rightarrow> Some \<lparr>pattern = string_of (get_prop v ''pattern''),
                               reason = string_of (get_prop v ''reason''), action = a\<rparr>
            | None \<Rightarrow> None)
      else None)"

definition asProtectedPath :: "json \<Rightarrow> ProtectedPath option" where
  "asProtectedPath v =
     (if isValidProtectedPath v
      then (case VALID_LEVELS (get_prop v ''level'') of
              Some (Level l) \<Rightarrow> Some \<lparr>path = string_of (get_prop v ''path''), level = l\<rparr>
            | _ \<Rightarrow> None)
      else None)"

text \<open>\<^verbatim>\<open>valid[key] = val\<close> on a record under construction.\<close>

fun assign :: "string \<Rightarrow> 'v \<Rightarrow> (string \<times> 'v) list \<Rightarrow> (string \<times> 'v) list" where
  "assign k v [] = [(k, v)]"
| "assign k v (e # es) = (if fst e = k then (k, v) # es else e # assign k v es)"

text \<open>
  The three loops of a section. \<open>validate_add\<close> is the loop over \<^verbatim>\<open>p.add\<close> from index
  \<open>i\<close>, \<open>validate_override\<close> the loop over \<^verbatim>\<open>Object.entries(p.override)\<close>; both carry
  the list \<open>valid\<close> and the warnings of the loop so far. The warning of the second loop
  prints the rejected value, which can throw. The assignment \<^verbatim>\<open>valid[key] = val\<close> with
  the key \<^verbatim>\<open>__proto__\<close> does not create a property: it calls the setter that \<open>valid\<close>
  inherits, and the setter ignores a value that is a string.
\<close>

fun validate_add ::
  "(json \<Rightarrow> 'a option) \<Rightarrow> (nat \<Rightarrow> string) \<Rightarrow> nat \<Rightarrow> 'a list \<Rightarrow> string list
     \<Rightarrow> json list \<Rightarrow> 'a list \<times> string list" where
  "validate_add cast warning i valid ws [] = (valid, ws)"
| "validate_add cast warning i valid ws (v # vs) =
     (case cast v of
        Some a \<Rightarrow> validate_add cast warning (Suc i) (valid @ [a]) ws vs
      | None \<Rightarrow> validate_add cast warning (Suc i) valid (ws @ [warning i]) vs)"

fun validate_override ::
  "(json option \<Rightarrow> 'v option) \<Rightarrow> (string \<Rightarrow> string \<Rightarrow> string) \<Rightarrow> (string \<times> 'v) list
     \<Rightarrow> string list \<Rightarrow> (string \<times> json) list \<Rightarrow> error + ((string \<times> 'v) list \<times> string list)" where
  "validate_override has warning valid ws [] = Inr (valid, ws)"
| "validate_override has warning valid ws ((key, val) # es) =
     (case has (Some val) of
        Some a \<Rightarrow>
          validate_override has warning
            (if key = ''__proto__'' then valid else assign key a valid) ws es
      | None \<Rightarrow>
          (case toString val of
             Inl e \<Rightarrow> Inl e
           | Inr text \<Rightarrow> validate_override has warning valid (ws @ [warning key text]) es))"

definition strings_of :: "json list \<Rightarrow> string list" where
  "strings_of vs = concat (map (\<lambda>v. case v of JStr s \<Rightarrow> [s] | _ \<Rightarrow> []) vs)"

definition non_empty :: "'a list \<Rightarrow> 'a list option" where
  "non_empty xs = (if xs = [] then None else Some xs)"

text \<open>
  The body of \<^verbatim>\<open>validateConfig\<close> for one section; the source has it twice, for
  \<^verbatim>\<open>patterns\<close> and for \<^verbatim>\<open>paths\<close>, with the names and the guards exchanged. \<open>name\<close>
  is the name of the section, \<open>need\<close> and \<open>what\<close> the two words of its warnings. The
  result is the fields \<^verbatim>\<open>add\<close>, \<^verbatim>\<open>remove\<close> and \<^verbatim>\<open>override\<close>, each set only when
  its validated value is not empty, and the warnings.
\<close>

definition validate_section ::
  "string \<Rightarrow> string \<Rightarrow> string \<Rightarrow> string \<Rightarrow> (json \<Rightarrow> 'a option) \<Rightarrow> (json option \<Rightarrow> 'v option)
     \<Rightarrow> json
     \<Rightarrow> error + (('a list option \<times> string list option \<times> (string \<times> 'v) list option) \<times> string list)" where
  \<open>validate_section source name need what cast has p =
     (let (adds, w1) =
            (case get_prop p ''add'' of
               None \<Rightarrow> (None, [])
             | Some (JArr vs) \<Rightarrow>
                 (let (valid, ws) =
                        validate_add cast
                          (\<lambda>i. source @ '': "'' @ name @ ''.add['' @ show_nat i
                                 @ '']" is invalid (need '' @ need @ ''), skipping'')
                          0 [] [] vs
                  in (non_empty valid, ws))
             | Some _ \<Rightarrow> (None, [source @ '': "'' @ name @ ''.add" is not an array, ignoring'']));
          (removes, w2) =
            (case get_prop p ''remove'' of
               None \<Rightarrow> (None, [])
             | Some (JArr vs) \<Rightarrow>
                 (let valid = strings_of vs
                  in (non_empty valid,
                      if length valid \<noteq> length vs
                      then [source @ '': some "'' @ name
                              @ ''.remove" entries are not strings, skipping those'']
                      else []))
             | Some _ \<Rightarrow>
                 (None, [source @ '': "'' @ name @ ''.remove" is not an array, ignoring'']))
      in case get_prop p ''override'' of
           None \<Rightarrow> Inr ((adds, removes, None), w1 @ w2)
         | Some (JObj es) \<Rightarrow>
             (case validate_override has
                     (\<lambda>key text. source @ '': "'' @ name @ ''.override['' @ JSON_stringify key
                                   @ '']" has invalid '' @ what @ '' "'' @ text @ ''", skipping'')
                     [] [] es of
                Inl e \<Rightarrow> Inl e
              | Inr (valid, ws) \<Rightarrow> Inr ((adds, removes, non_empty valid), w1 @ w2 @ ws))
         | Some _ \<Rightarrow>
             Inr ((adds, removes, None),
                  w1 @ w2 @ [source @ '': "'' @ name @ ''.override" is not an object, ignoring'']))\<close>

definition unknown_keys :: "string \<Rightarrow> json \<Rightarrow> string list" where
  \<open>unknown_keys source raw =
     (case raw of
        JObj kvs \<Rightarrow>
          map (\<lambda>key. source @ '': unknown key "'' @ key @ ''", ignoring'')
            (filter (\<lambda>key. key \<noteq> ''patterns'' \<and> key \<noteq> ''paths'' \<and> key \<noteq> ''$schema'')
               (map fst kvs))
      | _ \<Rightarrow> [])\<close>

definition validateConfig :: "json \<Rightarrow> string \<Rightarrow> error + (DamageControlConfig \<times> string list)" where
  \<open>validateConfig raw source =
     (if \<not> isObject raw
      then Inr (\<lparr>patterns = None, paths = None\<rparr>, [source @ '': config is not an object, ignoring''])
      else
        (case (case get_prop raw ''patterns'' of
                 None \<Rightarrow> Inr (None, [])
               | Some p \<Rightarrow>
                   if \<not> isObject p
                   then Inr (None, [source @ '': "patterns" is not an object, ignoring''])
                   else (case validate_section source ''patterns'' ''pattern, reason, action''
                                 ''action'' asPattern VALID_ACTIONS p of
                           Inl e \<Rightarrow> Inl e
                         | Inr ((a, r, ov), ws) \<Rightarrow>
                             Inr (Some \<lparr>pat_add = a, pat_remove = r, pat_override = ov\<rparr>, ws))) of
           Inl e \<Rightarrow> Inl e
         | Inr (pc, w1) \<Rightarrow>
             (case (case get_prop raw ''paths'' of
                      None \<Rightarrow> Inr (None, [])
                    | Some p \<Rightarrow>
                        if \<not> isObject p
                        then Inr (None, [source @ '': "paths" is not an object, ignoring''])
                        else (case validate_section source ''paths'' ''path, level''
                                      ''level'' asProtectedPath VALID_LEVELS p of
                                Inl e \<Rightarrow> Inl e
                              | Inr ((a, r, ov), ws) \<Rightarrow>
                                  Inr (Some \<lparr>path_add = a, path_remove = r, path_override = ov\<rparr>,
                                       ws))) of
                Inl e \<Rightarrow> Inl e
              | Inr (pathc, w2) \<Rightarrow>
                  Inr (\<lparr>patterns = pc, paths = pathc\<rparr>, w1 @ w2 @ unknown_keys source raw))))\<close>

subsection \<open>Merging the global and the project config\<close>

text \<open>\<^verbatim>\<open>c?.field || []\<close> and \<^verbatim>\<open>{...a, ...b}\<close>.\<close>

definition field_or_empty :: "('c \<Rightarrow> 'a list option) \<Rightarrow> 'c option \<Rightarrow> 'a list" where
  "field_or_empty field c =
     (case c of None \<Rightarrow> [] | Some x \<Rightarrow> (case field x of None \<Rightarrow> [] | Some xs \<Rightarrow> xs))"

definition spread :: "(string \<times> 'v) list \<Rightarrow> (string \<times> 'v) list \<Rightarrow> (string \<times> 'v) list" where
  "spread a b = foldl (\<lambda>acc (k, v). assign k v acc) a b"

definition mergeConfigs :: "DamageControlConfig \<Rightarrow> DamageControlConfig \<Rightarrow> DamageControlConfig" where
  "mergeConfigs global project =
     (let gp = patterns global; pp = patterns project;
          gpaths = paths global; ppaths = paths project
      in \<lparr>patterns =
            (if gp \<noteq> None \<or> pp \<noteq> None
             then Some \<lparr>pat_add = non_empty (field_or_empty pat_add gp @ field_or_empty pat_add pp),
                        pat_remove =
                          non_empty (field_or_empty pat_remove gp @ field_or_empty pat_remove pp),
                        pat_override =
                          non_empty (spread (field_or_empty pat_override gp)
                                            (field_or_empty pat_override pp))\<rparr>
             else None),
          paths =
            (if gpaths \<noteq> None \<or> ppaths \<noteq> None
             then Some \<lparr>path_add =
                          non_empty (field_or_empty path_add gpaths @ field_or_empty path_add ppaths),
                        path_remove =
                          non_empty (field_or_empty path_remove gpaths
                                     @ field_or_empty path_remove ppaths),
                        path_override =
                          non_empty (spread (field_or_empty path_override gpaths)
                                            (field_or_empty path_override ppaths))\<rparr>
             else None)\<rparr>)"

subsection \<open>Applying a config to the defaults\<close>

text \<open>
  The read \<^verbatim>\<open>obj[key]\<close> of a record. The records of a config are plain objects: what
  \<^verbatim>\<open>validateConfig\<close> builds from \<^verbatim>\<open>{}\<close>, what \<^verbatim>\<open>mergeConfigs\<close> builds with a spread, or
  an object literal. The read gives the own property of that name when there is one.
  Otherwise it gives what the object inherits from \<^verbatim>\<open>Object.prototype\<close> under that
  name: there are twelve such names, and the value is a function or an object each
  time, so it is not \<^verbatim>\<open>undefined\<close> and not equal to any string. \<open>Inherited key\<close> stands
  for that value. For every other name the read gives \<^verbatim>\<open>undefined\<close>.
\<close>

datatype 'a member = Own 'a | Inherited string

definition OBJECT_PROTOTYPE :: "string list" where
  "OBJECT_PROTOTYPE =
     [''constructor'', ''__defineGetter__'', ''__defineSetter__'', ''hasOwnProperty'',
      ''__lookupGetter__'', ''__lookupSetter__'', ''isPrototypeOf'', ''propertyIsEnumerable'',
      ''toString'', ''valueOf'', ''__proto__'', ''toLocaleString'']"

definition read_member :: "(string \<times> 'v) list \<Rightarrow> string \<Rightarrow> 'v member option" where
  "read_member obj key =
     (case map_of obj key of
        Some v \<Rightarrow> Some (Own v)
      | None \<Rightarrow> if key \<in> set OBJECT_PROTOTYPE then Some (Inherited key) else None)"

text \<open>
  The rules that \<^verbatim>\<open>applyConfig\<close> returns. They are declared as \<^verbatim>\<open>Pattern\<close> and
  \<^verbatim>\<open>ProtectedPath\<close>, but the declaration is not checked when the program runs: the
  object \<^verbatim>\<open>{ ...p, action: newAction }\<close> holds whatever the read of the override gave.
  So a returned rule is an object whose action or level is a \<open>member\<close>; \<open>pattern_object\<close>
  and \<open>path_object\<close> are the objects of a rule of the declared type.
\<close>

record PatternObject =
  pattern_of :: string
  reason_of :: string
  action_of :: "Action member"

record PathObject =
  path_of :: string
  level_of :: "ProtectionLevel member"

definition pattern_object :: "Pattern \<Rightarrow> PatternObject" where
  "pattern_object p = \<lparr>pattern_of = pattern p, reason_of = reason p, action_of = Own (action p)\<rparr>"

definition path_object :: "ProtectedPath \<Rightarrow> PathObject" where
  "path_object p = \<lparr>path_of = path p, level_of = Own (level p)\<rparr>"

text \<open>
  \<open>override_paths\<close> is the \<^verbatim>\<open>for\<close> loop of step 2 for paths, with \<open>afterOverride\<close>
  as its accumulator: \<^verbatim>\<open>newLevel === 'none'\<close> skips the entry, every other value that
  is not \<^verbatim>\<open>undefined\<close> becomes the level of a new object.
\<close>

fun override_paths ::
  "(string \<times> LevelOrNone) list \<Rightarrow> PathObject list \<Rightarrow> PathObject list \<Rightarrow> PathObject list" where
  "override_paths ov afterOverride [] = afterOverride"
| "override_paths ov afterOverride (p # ps) =
     (case read_member ov (path_of p) of
        Some (Own none) \<Rightarrow> override_paths ov afterOverride ps
      | Some (Own (Level newLevel)) \<Rightarrow>
          override_paths ov (afterOverride @ [p\<lparr>level_of := Own newLevel\<rparr>]) ps
      | Some (Inherited key) \<Rightarrow>
          override_paths ov (afterOverride @ [p\<lparr>level_of := Inherited key\<rparr>]) ps
      | None \<Rightarrow> override_paths ov (afterOverride @ [p]) ps)"

definition applyConfig ::
  "DamageControlConfig \<Rightarrow> Pattern list \<Rightarrow> ProtectedPath list
     \<Rightarrow> PatternObject list \<times> PathObject list" where
  "applyConfig config defaultPatterns defaultPaths =
     (let patterns0 = map pattern_object defaultPatterns;
          patterns3 =
            (case patterns config of
               None \<Rightarrow> patterns0
             | Some pc \<Rightarrow>
                 (let patterns1 =
                        (case pat_remove pc of
                           None \<Rightarrow> patterns0
                         | Some removeSet \<Rightarrow>
                             filter (\<lambda>p. reason_of p \<notin> set removeSet) patterns0);
                      patterns2 =
                        (case pat_override pc of
                           None \<Rightarrow> patterns1
                         | Some ov \<Rightarrow>
                             map (\<lambda>p. case read_member ov (reason_of p) of
                                         Some newAction \<Rightarrow> p\<lparr>action_of := newAction\<rparr>
                                       | None \<Rightarrow> p) patterns1)
                  in case pat_add pc of
                       None \<Rightarrow> patterns2
                     | Some adds \<Rightarrow> patterns2 @ map pattern_object adds));
          paths0 = map path_object defaultPaths;
          paths3 =
            (case paths config of
               None \<Rightarrow> paths0
             | Some pathc \<Rightarrow>
                 (let paths1 =
                        (case path_remove pathc of
                           None \<Rightarrow> paths0
                         | Some removeSet \<Rightarrow>
                             filter (\<lambda>p. path_of p \<notin> set removeSet) paths0);
                      paths2 =
                        (case path_override pathc of
                           None \<Rightarrow> paths1
                         | Some ov \<Rightarrow> override_paths ov [] paths1)
                  in case path_add pathc of
                       None \<Rightarrow> paths2
                     | Some adds \<Rightarrow> paths2 @ map path_object adds))
      in (patterns3, paths3))"

subsection \<open>Applying a config, on a store\<close>

text \<open>
  Arrays and rule objects of the host language are mutable and shared by reference, so
  whether \<^verbatim>\<open>applyConfig\<close> changes its arguments is a question about the store. A store
  is a list of cells, an address is an index into it, and allocation appends a cell.
  \<open>applyConfigS\<close> is \<^verbatim>\<open>applyConfig\<close> with every array and every rule object as an
  address: the copy \<^verbatim>\<open>[...xs]\<close>, \<^verbatim>\<open>filter\<close>, \<^verbatim>\<open>map\<close> and the array literal
  \<^verbatim>\<open>[...xs, ...ys]\<close> allocate an array, the object literal \<^verbatim>\<open>{...p, action: a}\<close>
  allocates an object, a callback that returns \<^verbatim>\<open>p\<close> passes the address on, and
  \<^verbatim>\<open>afterOverride.push(x)\<close> writes into the array it is called on. The \<^verbatim>\<open>remove\<close> list
  and the \<^verbatim>\<open>override\<close> record of the config are only read and stay values. The result
  None stands for an address that does not hold what the types promise.
\<close>

type_synonym addr = nat

datatype cell = PatternObj PatternObject | PathObj PathObject | Array "addr list"

type_synonym store = "cell list"

record PatternsConfigS =
  pat_addS :: "addr option"
  pat_removeS :: "string list option"
  pat_overrideS :: "(string \<times> Action) list option"

record PathsConfigS =
  path_addS :: "addr option"
  path_removeS :: "string list option"
  path_overrideS :: "(string \<times> LevelOrNone) list option"

record ConfigS =
  patternsS :: "PatternsConfigS option"
  pathsS :: "PathsConfigS option"

definition alloc :: "store \<Rightarrow> cell \<Rightarrow> store \<times> addr" where
  "alloc h c = (h @ [c], length h)"

definition array_at :: "store \<Rightarrow> addr \<Rightarrow> addr list option" where
  "array_at h a =
     (if a < length h then (case h ! a of Array xs \<Rightarrow> Some xs | _ \<Rightarrow> None) else None)"

definition pattern_at :: "store \<Rightarrow> addr \<Rightarrow> PatternObject option" where
  "pattern_at h a =
     (if a < length h then (case h ! a of PatternObj p \<Rightarrow> Some p | _ \<Rightarrow> None) else None)"

definition path_at :: "store \<Rightarrow> addr \<Rightarrow> PathObject option" where
  "path_at h a =
     (if a < length h then (case h ! a of PathObj p \<Rightarrow> Some p | _ \<Rightarrow> None) else None)"

definition array_push :: "store \<Rightarrow> addr \<Rightarrow> addr \<Rightarrow> store option" where
  "array_push h a x =
     (case array_at h a of Some xs \<Rightarrow> Some (h[a := Array (xs @ [x])]) | None \<Rightarrow> None)"

fun filter_patternsS :: "store \<Rightarrow> string list \<Rightarrow> addr list \<Rightarrow> addr list option" where
  "filter_patternsS h removeSet [] = Some []"
| "filter_patternsS h removeSet (a # as) =
     do { p \<leftarrow> pattern_at h a;
          rest \<leftarrow> filter_patternsS h removeSet as;
          Some (if reason_of p \<notin> set removeSet then a # rest else rest) }"

fun filter_pathsS :: "store \<Rightarrow> string list \<Rightarrow> addr list \<Rightarrow> addr list option" where
  "filter_pathsS h removeSet [] = Some []"
| "filter_pathsS h removeSet (a # as) =
     do { p \<leftarrow> path_at h a;
          rest \<leftarrow> filter_pathsS h removeSet as;
          Some (if path_of p \<notin> set removeSet then a # rest else rest) }"

fun map_overrideS ::
  "store \<Rightarrow> (string \<times> Action) list \<Rightarrow> addr list \<Rightarrow> (store \<times> addr list) option" where
  "map_overrideS h ov [] = Some (h, [])"
| "map_overrideS h ov (a # as) =
     do { p \<leftarrow> pattern_at h a;
          (h1, b) \<leftarrow> Some (case read_member ov (reason_of p) of
                             Some newAction \<Rightarrow> alloc h (PatternObj (p\<lparr>action_of := newAction\<rparr>))
                           | None \<Rightarrow> (h, a));
          (h2, rest) \<leftarrow> map_overrideS h1 ov as;
          Some (h2, b # rest) }"

fun override_pathsS ::
  "store \<Rightarrow> (string \<times> LevelOrNone) list \<Rightarrow> addr \<Rightarrow> addr list \<Rightarrow> store option" where
  "override_pathsS h ov afterOverride [] = Some h"
| "override_pathsS h ov afterOverride (a # as) =
     do { p \<leftarrow> path_at h a;
          case read_member ov (path_of p) of
            Some (Own none) \<Rightarrow> override_pathsS h ov afterOverride as
          | Some (Own (Level newLevel)) \<Rightarrow>
              do { (h1, b) \<leftarrow> Some (alloc h (PathObj (p\<lparr>level_of := Own newLevel\<rparr>)));
                   h2 \<leftarrow> array_push h1 afterOverride b;
                   override_pathsS h2 ov afterOverride as }
          | Some (Inherited key) \<Rightarrow>
              do { (h1, b) \<leftarrow> Some (alloc h (PathObj (p\<lparr>level_of := Inherited key\<rparr>)));
                   h2 \<leftarrow> array_push h1 afterOverride b;
                   override_pathsS h2 ov afterOverride as }
          | None \<Rightarrow>
              do { h1 \<leftarrow> array_push h afterOverride a;
                   override_pathsS h1 ov afterOverride as } }"

text \<open>The three steps of one section: \<^verbatim>\<open>if (pc.remove)\<close>, \<^verbatim>\<open>if (pc.override)\<close>, \<^verbatim>\<open>if (pc.add)\<close>.\<close>

definition remove_patternsS ::
  "store \<Rightarrow> string list option \<Rightarrow> addr \<Rightarrow> (store \<times> addr) option" where
  "remove_patternsS h remove patterns0 =
     (case remove of
        None \<Rightarrow> Some (h, patterns0)
      | Some removeSet \<Rightarrow>
          do { ys \<leftarrow> array_at h patterns0;
               zs \<leftarrow> filter_patternsS h removeSet ys;
               Some (alloc h (Array zs)) })"

definition override_patternsS ::
  "store \<Rightarrow> (string \<times> Action) list option \<Rightarrow> addr \<Rightarrow> (store \<times> addr) option" where
  "override_patternsS h override patterns1 =
     (case override of
        None \<Rightarrow> Some (h, patterns1)
      | Some ov \<Rightarrow>
          do { ys \<leftarrow> array_at h patterns1;
               (h', zs) \<leftarrow> map_overrideS h ov ys;
               Some (alloc h' (Array zs)) })"

definition add_rulesS :: "store \<Rightarrow> addr option \<Rightarrow> addr \<Rightarrow> (store \<times> addr) option" where
  "add_rulesS h add rules2 =
     (case add of
        None \<Rightarrow> Some (h, rules2)
      | Some adds \<Rightarrow>
          do { ys \<leftarrow> array_at h rules2;
               ws \<leftarrow> array_at h adds;
               Some (alloc h (Array (ys @ ws))) })"

definition applyPatternsS ::
  "store \<Rightarrow> PatternsConfigS option \<Rightarrow> addr \<Rightarrow> (store \<times> addr) option" where
  "applyPatternsS h pc defaultPatterns =
     do { xs \<leftarrow> array_at h defaultPatterns;
          (h0, patterns0) \<leftarrow> Some (alloc h (Array xs));
          case pc of
            None \<Rightarrow> Some (h0, patterns0)
          | Some c \<Rightarrow>
              do { (h1, patterns1) \<leftarrow> remove_patternsS h0 (pat_removeS c) patterns0;
                   (h2, patterns2) \<leftarrow> override_patternsS h1 (pat_overrideS c) patterns1;
                   add_rulesS h2 (pat_addS c) patterns2 } }"

definition remove_pathsS ::
  "store \<Rightarrow> string list option \<Rightarrow> addr \<Rightarrow> (store \<times> addr) option" where
  "remove_pathsS h remove paths0 =
     (case remove of
        None \<Rightarrow> Some (h, paths0)
      | Some removeSet \<Rightarrow>
          do { ys \<leftarrow> array_at h paths0;
               zs \<leftarrow> filter_pathsS h removeSet ys;
               Some (alloc h (Array zs)) })"

definition override_pathsStep ::
  "store \<Rightarrow> (string \<times> LevelOrNone) list option \<Rightarrow> addr \<Rightarrow> (store \<times> addr) option" where
  "override_pathsStep h override paths1 =
     (case override of
        None \<Rightarrow> Some (h, paths1)
      | Some ov \<Rightarrow>
          do { ys \<leftarrow> array_at h paths1;
               (h', afterOverride) \<leftarrow> Some (alloc h (Array []));
               h'' \<leftarrow> override_pathsS h' ov afterOverride ys;
               Some (h'', afterOverride) })"

definition applyPathsS ::
  "store \<Rightarrow> PathsConfigS option \<Rightarrow> addr \<Rightarrow> (store \<times> addr) option" where
  "applyPathsS h pathc defaultPaths =
     do { xs \<leftarrow> array_at h defaultPaths;
          (h0, paths0) \<leftarrow> Some (alloc h (Array xs));
          case pathc of
            None \<Rightarrow> Some (h0, paths0)
          | Some c \<Rightarrow>
              do { (h1, paths1) \<leftarrow> remove_pathsS h0 (path_removeS c) paths0;
                   (h2, paths2) \<leftarrow> override_pathsStep h1 (path_overrideS c) paths1;
                   add_rulesS h2 (path_addS c) paths2 } }"

definition applyConfigS ::
  "store \<Rightarrow> ConfigS \<Rightarrow> addr \<Rightarrow> addr \<Rightarrow> (store \<times> addr \<times> addr) option" where
  "applyConfigS h config defaultPatterns defaultPaths =
     do { (h1, patterns') \<leftarrow> applyPatternsS h (patternsS config) defaultPatterns;
          (h2, paths') \<leftarrow> applyPathsS h1 (pathsS config) defaultPaths;
          Some (h2, patterns', paths') }"

text \<open>
  Reading a store back: the objects behind a list of addresses, and the objects an
  array holds; each is None when an address does not hold what its type promises.
  \<open>config_in h s c\<close> says that the config \<open>s\<close>, whose \<^verbatim>\<open>add\<close> lists are arrays of the
  store \<open>h\<close>, is the config \<open>c\<close>.
\<close>

definition read_patterns :: "store \<Rightarrow> addr list \<Rightarrow> PatternObject list option" where
  "read_patterns h xs =
     (if list_all (\<lambda>x. pattern_at h x \<noteq> None) xs
      then Some (map (\<lambda>x. the (pattern_at h x)) xs) else None)"

definition read_paths :: "store \<Rightarrow> addr list \<Rightarrow> PathObject list option" where
  "read_paths h xs =
     (if list_all (\<lambda>x. path_at h x \<noteq> None) xs
      then Some (map (\<lambda>x. the (path_at h x)) xs) else None)"

definition patterns_at :: "store \<Rightarrow> addr \<Rightarrow> PatternObject list option" where
  "patterns_at h a = (case array_at h a of None \<Rightarrow> None | Some xs \<Rightarrow> read_patterns h xs)"

definition paths_at :: "store \<Rightarrow> addr \<Rightarrow> PathObject list option" where
  "paths_at h a = (case array_at h a of None \<Rightarrow> None | Some xs \<Rightarrow> read_paths h xs)"

definition patterns_config_in :: "store \<Rightarrow> PatternsConfigS \<Rightarrow> PatternsConfig \<Rightarrow> bool" where
  "patterns_config_in h s c =
     (pat_removeS s = pat_remove c \<and> pat_overrideS s = pat_override c
      \<and> (case pat_addS s of
            None \<Rightarrow> pat_add c = None
          | Some a \<Rightarrow>
              (case pat_add c of
                 None \<Rightarrow> False
               | Some adds \<Rightarrow> patterns_at h a = Some (map pattern_object adds))))"

definition paths_config_in :: "store \<Rightarrow> PathsConfigS \<Rightarrow> PathsConfig \<Rightarrow> bool" where
  "paths_config_in h s c =
     (path_removeS s = path_remove c \<and> path_overrideS s = path_override c
      \<and> (case path_addS s of
            None \<Rightarrow> path_add c = None
          | Some a \<Rightarrow>
              (case path_add c of
                 None \<Rightarrow> False
               | Some adds \<Rightarrow> paths_at h a = Some (map path_object adds))))"

definition config_in :: "store \<Rightarrow> ConfigS \<Rightarrow> DamageControlConfig \<Rightarrow> bool" where
  "config_in h s c =
     ((case patternsS s of
         None \<Rightarrow> patterns c = None
       | Some ps \<Rightarrow> (case patterns c of None \<Rightarrow> False | Some pc \<Rightarrow> patterns_config_in h ps pc))
      \<and> (case pathsS s of
            None \<Rightarrow> paths c = None
          | Some ps \<Rightarrow> (case paths c of None \<Rightarrow> False | Some pc \<Rightarrow> paths_config_in h ps pc)))"

section \<open>The path classifier as the specification words it\<close>

text \<open>
  The specification describes the match of one path rule against a file path in its
  own words: a glob rule is translated by escaping all metacharacters of regular
  expressions except \<^verbatim>\<open>*\<close> and is tested against the basename of the file path, the
  final path segment after the trailing slashes are trimmed; a literal rule has its
  leading \<^verbatim>\<open>~\<close> expanded. These definitions follow those words, for comparison with
  \<open>checkPathProtection\<close>. The metacharacters are the syntax characters of the pattern
  grammar, and the segments of a path are the pieces between its slashes.
\<close>

fun spec_trim_slashes :: "string \<Rightarrow> string" where
  "spec_trim_slashes [] = []"
| "spec_trim_slashes (c # cs) =
     (let rest = spec_trim_slashes cs
      in if c = CHR ''/'' \<and> rest = [] then [] else c # rest)"

fun spec_final_segment :: "string \<Rightarrow> string" where
  "spec_final_segment [] = []"
| "spec_final_segment (c # cs) =
     (if CHR ''/'' \<in> set (c # cs) then spec_final_segment cs else c # cs)"

definition spec_basename :: "string \<Rightarrow> string" where
  "spec_basename filePath = spec_final_segment (spec_trim_slashes filePath)"

definition spec_escape :: "string \<Rightarrow> string" where
  "spec_escape glob =
     concat (map (\<lambda>c. if c \<in> set ''^$.+?()[]{}|'' \<or> c = bs then [bs, c] else [c]) glob)"

definition spec_glob_source :: "string \<Rightarrow> string" where
  "spec_glob_source glob = ''^'' @ star_to_any (spec_escape glob) @ ''$''"

definition spec_expand_leading :: "string \<Rightarrow> string \<Rightarrow> string" where
  "spec_expand_leading home p =
     (case p of [] \<Rightarrow> [] | c # rest \<Rightarrow> if c = CHR ''~'' then home @ rest else p)"

definition spec_rule_matches :: "string \<Rightarrow> string \<Rightarrow> ProtectedPath \<Rightarrow> bool" where
  "spec_rule_matches home filePath p =
     (if CHR ''*'' \<in> set (path p)
      then (case new_RegExp (spec_glob_source (path p)) False of
              Inr regex \<Rightarrow> regex_test regex (spec_basename filePath)
            | Inl _ \<Rightarrow> False)
      else includes filePath (spec_expand_leading home (path p))
           \<or> includes filePath (path p))"


text \<open>
  The specification describes the overlay in three steps: drop the default entries
  whose key (the reason of a pattern, the path of a path rule) is in the remove list;
  for each remaining entry whose key has an override, replace its action or level, a
  path override of \<^verbatim>\<open>none\<close> removing the entry; append the add list. An absent field is
  an empty list or an empty map. These definitions follow those words, for comparison
  with \<open>applyConfig\<close>.
\<close>

definition spec_apply_patterns :: "PatternsConfig option \<Rightarrow> Pattern list \<Rightarrow> Pattern list" where
  "spec_apply_patterns pc defaults =
     map (\<lambda>p. case map_of (field_or_empty pat_override pc) (reason p) of
                 Some a \<Rightarrow> p\<lparr>action := a\<rparr>
               | None \<Rightarrow> p)
       (filter (\<lambda>p. reason p \<notin> set (field_or_empty pat_remove pc)) defaults)
     @ field_or_empty pat_add pc"

definition spec_apply_paths :: "PathsConfig option \<Rightarrow> ProtectedPath list \<Rightarrow> ProtectedPath list" where
  "spec_apply_paths pc defaults =
     concat (map (\<lambda>p. case map_of (field_or_empty path_override pc) (path p) of
                         Some none \<Rightarrow> []
                       | Some (Level l) \<Rightarrow> [p\<lparr>level := l\<rparr>]
                       | None \<Rightarrow> [p])
       (filter (\<lambda>p. path p \<notin> set (field_or_empty path_remove pc)) defaults))
     @ field_or_empty path_add pc"

section \<open>Notions of the claims\<close>

text \<open>
  A pattern matches a command when its source compiles, without case distinction, to a
  regular expression that matches somewhere in the command. \<open>match_text\<close> is the text
  reported with the match: the matched substring, or the source of the pattern when
  that substring is empty.
\<close>

definition compiles_and_matches :: "Pattern \<Rightarrow> string \<Rightarrow> bool" where
  "compiles_and_matches p command =
     (case new_RegExp (pattern p) True of
        Inr regex \<Rightarrow> regex_test regex command
      | Inl _ \<Rightarrow> False)"

definition match_text :: "Pattern \<Rightarrow> string \<Rightarrow> string" where
  "match_text p command =
     (case new_RegExp (pattern p) True of
        Inr regex \<Rightarrow> (case regex_exec regex command of
                        Some t \<Rightarrow> if t = [] then pattern p else t
                      | None \<Rightarrow> pattern p)
      | Inl _ \<Rightarrow> pattern p)"

text \<open>
  A path with its first \<^verbatim>\<open>~\<close>, wherever it stands, replaced by the home value, and
  whether a home value holds one of the four replacement patterns that \<^verbatim>\<open>replace\<close>
  reads in its second argument: \<^verbatim>\<open>$$\<close>, \<^verbatim>\<open>$&\<close>, \<^verbatim>\<open>$\<close> with a backquote, \<^verbatim>\<open>$\<close> with a
  quote.
\<close>

definition expand_first_tilde :: "string \<Rightarrow> string \<Rightarrow> string" where
  "expand_first_tilde home p =
     (if CHR ''~'' \<in> set p
      then takeWhile (\<lambda>x. x \<noteq> CHR ''~'') p @ home @ tl (dropWhile (\<lambda>x. x \<noteq> CHR ''~'') p)
      else p)"

fun replacement_pattern :: "string \<Rightarrow> bool" where
  "replacement_pattern (c # d # cs) =
     ((c = CHR ''$'' \<and> d \<in> set [CHR ''$'', CHR ''&'', CHR 0x60, CHR 0x27])
      \<or> replacement_pattern (d # cs))"
| "replacement_pattern cs = False"

section \<open>Facts about the tables\<close>

text \<open>Every regular-expression literal of the two catalogues parses.\<close>

lemma literals_parse:
  "list_all (\<lambda>src. \<not> isl (new_RegExp src False)) (SHELL_WRITE_SOURCES @ SHELL_DELETE_SOURCES)"
  by code_simp

text \<open>Every default pattern is a valid regular expression, inside the modelled fragment.\<close>

lemma default_patterns_compile:
  "list_all (\<lambda>p. \<not> isl (new_RegExp (pattern p) True)) DEFAULT_PATTERNS"
  by code_simp

section \<open>The shell classifier on the commands of the specification\<close>

lemma bashrc_not_glob: "isGlobPattern ''~/.bashrc'' = False"
  by (simp add: isGlobPattern_def)

lemma bashrc_mentioned:
  "includes ''cat ~/.bashrc'' ''~/.bashrc''"
  "includes ''echo x >> ~/.bashrc'' ''~/.bashrc''"
  "includes ''rm ~/.bashrc'' ''~/.bashrc''"
  by code_simp+

lemma cat_bashrc_ops:
  "list_ex (\<lambda>opr. regex_test opr ''cat ~/.bashrc'') SHELL_WRITE_OPS = False"
  "list_ex (\<lambda>opr. regex_test opr ''cat ~/.bashrc'') SHELL_DELETE_OPS = False"
  by code_simp+

lemma echo_bashrc_ops:
  "list_ex (\<lambda>opr. regex_test opr ''echo x >> ~/.bashrc'') SHELL_WRITE_OPS = True"
  by code_simp

lemma rm_bashrc_ops:
  "list_ex (\<lambda>opr. regex_test opr ''rm ~/.bashrc'') SHELL_WRITE_OPS = False"
  "list_ex (\<lambda>opr. regex_test opr ''rm ~/.bashrc'') SHELL_DELETE_OPS = True"
  by code_simp+

text \<open>
  Claim C3. With the single rule \<^verbatim>\<open>{path: '~/.bashrc', level: 'readOnly'}\<close>, the
  command \<^verbatim>\<open>cat ~/.bashrc\<close> is no violation, \<^verbatim>\<open>echo x >> ~/.bashrc\<close> is a violation
  of that rule with operation \<^verbatim>\<open>write\<close>, and \<^verbatim>\<open>rm ~/.bashrc\<close> is a violation of
  that rule with operation \<^verbatim>\<open>delete\<close>; this holds whatever \<^verbatim>\<open>HOME\<close> is.
\<close>

theorem C3_shell_classifier_precision:
  "checkShellPathViolation env ''cat ~/.bashrc'' [\<lparr>path = ''~/.bashrc'', level = readOnly\<rparr>]
     = Inr None
   \<and> checkShellPathViolation env ''echo x >> ~/.bashrc''
         [\<lparr>path = ''~/.bashrc'', level = readOnly\<rparr>]
     = Inr (Some (\<lparr>path = ''~/.bashrc'', level = readOnly\<rparr>, write))
   \<and> checkShellPathViolation env ''rm ~/.bashrc'' [\<lparr>path = ''~/.bashrc'', level = readOnly\<rparr>]
     = Inr (Some (\<lparr>path = ''~/.bashrc'', level = readOnly\<rparr>, delete))"
  by (simp add: ruleViolation_def isShellWrite_def isShellDelete_def commandReferencesPath_def
        bashrc_not_glob bashrc_mentioned cat_bashrc_ops echo_bashrc_ops rm_bashrc_ops Let_def)

section \<open>The default patterns on the commands of the specification\<close>

text \<open>
  Claim C5. Against the default patterns, \<^verbatim>\<open>DROP TABLE users\<close> returns the rule with
  action \<^verbatim>\<open>block\<close> and reason \<^verbatim>\<open>SQL DROP TABLE\<close>; \<^verbatim>\<open>git reset --hard HEAD~1\<close>
  returns a rule with action \<^verbatim>\<open>ask\<close> whose reason contains \<^verbatim>\<open>git reset --hard\<close>; and
  the force-push block rule of the table, compiled as the matcher compiles it, does not
  match \<^verbatim>\<open>git push --force-with-lease origin main\<close>.
\<close>

theorem C5_default_patterns_scenario:
  "matchPattern ''DROP TABLE users'' DEFAULT_PATTERNS
     = Inr (Some (''DROP TABLE'',
                  \<lparr>pattern = bsl ''DROP%s+TABLE'', reason = ''SQL DROP TABLE'', action = block\<rparr>))
   \<and> matchPattern ''git reset --hard HEAD~1'' DEFAULT_PATTERNS
     = Inr (Some (''git reset --hard'',
                  \<lparr>pattern = bsl ''git%s+reset%s+--hard'',
                   reason = ''git reset --hard (use --soft or stash)'', action = ask\<rparr>))
   \<and> includes ''git reset --hard (use --soft or stash)'' ''git reset --hard''
   \<and> \<lparr>pattern = bsl ''git%s+push%s+.*--force(?!-with-lease)'',
      reason = ''git push --force (use --force-with-lease)'', action = block\<rparr>
       \<in> set DEFAULT_PATTERNS
   \<and> map_sum id (\<lambda>regex. regex_test regex ''git push --force-with-lease origin main'')
         (new_RegExp (bsl ''git%s+push%s+.*--force(?!-with-lease)'') True) = Inr False"
  by code_simp

section \<open>A write that the classifier does not see\<close>

lemma yarn_not_glob: "isGlobPattern ''yarn.lock'' = False"
  by (simp add: isGlobPattern_def)

lemma yarn_mentioned: "includes ''./generate.sh > yarn.lock'' ''yarn.lock''"
  by code_simp

lemma generate_ops:
  "list_ex (\<lambda>opr. regex_test opr ''./generate.sh > yarn.lock'') SHELL_WRITE_OPS = False"
  "list_ex (\<lambda>opr. regex_test opr ''./generate.sh > yarn.lock'') SHELL_DELETE_OPS = False"
  by code_simp+

lemma redirect_signature:
  "regex_test (SHELL_WRITE_OPS ! 0) ''> yarn.lock''"
  "regex_test (SHELL_WRITE_OPS ! 0) ''true;  >> yarn.lock''"
  "regex_test (SHELL_WRITE_OPS ! 0) ''true |> yarn.lock''"
  "\<not> regex_test (SHELL_WRITE_OPS ! 0) ''./generate.sh > yarn.lock''"
  by code_simp+

text \<open>
  Claim C10. With the single rule \<^verbatim>\<open>{path: 'yarn.lock', level: 'readOnly'}\<close>, the
  command \<^verbatim>\<open>./generate.sh > yarn.lock\<close> is not classified as a write of
  \<^verbatim>\<open>yarn.lock\<close> and is no violation, whatever \<^verbatim>\<open>HOME\<close> is: the redirect signature,
  which accepts a redirect at the start of a command or after \<^verbatim>\<open>;\<close>, \<^verbatim>\<open>&\<close> or
  \<^verbatim>\<open>|\<close>, does not accept this one, and no other write signature matches either.
\<close>

theorem C10_redirect_after_space_unseen:
  "isShellWrite env ''./generate.sh > yarn.lock'' ''yarn.lock'' = Inr False
   \<and> checkShellPathViolation env ''./generate.sh > yarn.lock''
         [\<lparr>path = ''yarn.lock'', level = readOnly\<rparr>] = Inr None
   \<and> regex_test (SHELL_WRITE_OPS ! 0) ''> yarn.lock''
   \<and> regex_test (SHELL_WRITE_OPS ! 0) ''true;  >> yarn.lock''
   \<and> regex_test (SHELL_WRITE_OPS ! 0) ''true |> yarn.lock''
   \<and> \<not> regex_test (SHELL_WRITE_OPS ! 0) ''./generate.sh > yarn.lock''
   \<and> list_ex (\<lambda>opr. regex_test opr ''./generate.sh > yarn.lock'') SHELL_WRITE_OPS = False"
  by (simp add: ruleViolation_def isShellWrite_def isShellDelete_def commandReferencesPath_def
        yarn_not_glob yarn_mentioned generate_ops redirect_signature Let_def)

section \<open>The matched text is part of the command\<close>

lemma m_suffix: "m ic k p s = Some r \<Longrightarrow> suffix r s"
proof (induction ic k p s arbitrary: r rule: m.induct)
  case (3 ic c k p s)
  then show ?case by (auto split: list.splits if_splits intro: suffix_ConsI)
next
  case (4 ic k p s)
  then show ?case by (auto split: list.splits if_splits intro: suffix_ConsI)
next
  case (5 ic neg items k p s)
  then show ?case by (auto split: list.splits if_splits intro: suffix_ConsI)
qed (auto split: option.splits if_splits)

lemma scan_sublist: "scan ic r p s = Some t \<Longrightarrow> sublist t s"
proof (induction s arbitrary: p)
  case Nil
  then show ?case
    by (subst (asm) scan.simps) (auto split: option.splits)
next
  case (Cons x xs)
  show ?case
  proof (cases "m ic [R r] p (x # xs)")
    case None
    with Cons.prems have "scan ic r (Some x) xs = Some t"
      by (subst (asm) scan.simps) simp
    then have "sublist t xs" by (rule Cons.IH)
    then show ?thesis by (simp add: sublist_Cons_right)
  next
    case (Some rest)
    with Cons.prems have "t = take (length (x # xs) - length rest) (x # xs)"
      by (subst (asm) scan.simps) simp
    then have "prefix t (x # xs)" by (metis take_is_prefix)
    then show ?thesis by (rule prefix_imp_sublist)
  qed
qed

lemma regex_exec_sublist: "regex_exec re s = Some t \<Longrightarrow> sublist t s"
  by (cases re) (auto dest: scan_sublist)

section \<open>First match in list order\<close>

lemma matchPattern_first:
  "list_all (\<lambda>p. \<not> isl (new_RegExp (pattern p) True)) ps \<Longrightarrow>
   matchPattern command ps =
     Inr (case find (\<lambda>p. compiles_and_matches p command) ps of
            None \<Rightarrow> None
          | Some p \<Rightarrow> Some (match_text p command, p))"
proof (induction ps)
  case Nil
  then show ?case by simp
next
  case (Cons p ps)
  then obtain regex where c: "new_RegExp (pattern p) True = Inr regex"
    by (cases "new_RegExp (pattern p) True") auto
  show ?case using Cons c
    by (simp add: compiles_and_matches_def match_text_def)
qed

text \<open>
  The first match is decided by the patterns up to it: what follows it in the list is
  not compiled.
\<close>

lemma matchPattern_decided:
  "list_all (\<lambda>p. \<not> isl (new_RegExp (pattern p) True) \<and> \<not> compiles_and_matches p command) earlier \<Longrightarrow>
   compiles_and_matches hit command \<Longrightarrow>
   matchPattern command (earlier @ hit # later) = Inr (Some (match_text hit command, hit))"
proof (induction earlier)
  case Nil
  then obtain regex where "new_RegExp (pattern hit) True = Inr regex" "regex_test regex command"
    by (auto simp: compiles_and_matches_def split: sum.splits)
  then show ?case by (simp add: match_text_def)
next
  case (Cons p earlier)
  then obtain regex where "new_RegExp (pattern p) True = Inr regex" "\<not> regex_test regex command"
    by (cases "new_RegExp (pattern p) True") (auto simp: compiles_and_matches_def)
  with Cons show ?case by simp
qed

lemma match_text_cases:
  "match_text p command = pattern p \<or> (match_text p command \<noteq> [] \<and> sublist (match_text p command) command)"
  by (auto simp: match_text_def split: sum.splits option.splits dest: regex_exec_sublist)

lemma includes_append_right: "includes f (a @ b) \<Longrightarrow> includes f b"
  unfolding includes_def sublist_def by (metis append.assoc)

lemma replace_first_leading:
  "replace_first (c # rest) c template = getSubstitution [c] [] rest template @ rest"
  by (simp add: replace_first_def)

lemma replace_first_absent: "c \<notin> set s \<Longrightarrow> replace_first s c template = s"
proof -
  assume "c \<notin> set s"
  then have "dropWhile (\<lambda>x. x \<noteq> c) s = []" by auto
  then show ?thesis by (simp add: replace_first_def Let_def del: dropWhile_eq_Nil_conv)
qed

lemma home_rule_away:
  "\<not> includes f rest \<Longrightarrow> \<not> includes f (replace_first (CHR ''~'' # rest) (CHR ''~'') h)"
  by (auto simp: replace_first_leading dest: includes_append_right)

lemma passwd_not_home:
  "\<not> includes ''/etc/passwd'' ''/.ssh''" "\<not> includes ''/etc/passwd'' ''/.aws''"
  "\<not> includes ''/etc/passwd'' ''/.gnupg''" "\<not> includes ''/etc/passwd'' ''/.config/gcloud''"
  "\<not> includes ''/etc/passwd'' ''/.azure''" "\<not> includes ''/etc/passwd'' ''/.kube''"
  "\<not> includes ''/etc/passwd'' ''/.docker''"
  "\<not> includes ''/etc/passwd'' ''~/.ssh''" "\<not> includes ''/etc/passwd'' ''~/.aws''"
  "\<not> includes ''/etc/passwd'' ''~/.gnupg''" "\<not> includes ''/etc/passwd'' ''~/.config/gcloud''"
  "\<not> includes ''/etc/passwd'' ''~/.azure''" "\<not> includes ''/etc/passwd'' ''~/.kube''"
  "\<not> includes ''/etc/passwd'' ''~/.docker''"
  by code_simp+

lemma passwd_self: "includes ''/etc/passwd'' ''/etc/passwd''" "includes ''/etc/passwd'' ''/etc/''"
  by code_simp+

lemma passwd_default:
  "checkPathProtection env ''/etc/passwd'' DEFAULT_PROTECTED_PATHS
     = Inr (Some \<lparr>path = ''/etc/passwd'', level = zeroAccess\<rparr>)"
  by (simp add: DEFAULT_PROTECTED_PATHS_def isGlobPattern_def home_rule_away passwd_not_home
        passwd_self replace_first_absent Let_def)

lemma passwd_etc:
  "checkPathProtection env ''/etc/passwd'' [\<lparr>path = ''/etc/'', level = readOnly\<rparr>]
     = Inr (Some \<lparr>path = ''/etc/'', level = readOnly\<rparr>)"
  by (simp add: isGlobPattern_def passwd_self replace_first_absent Let_def)

lemma order_default: "DEFAULT_PROTECTED_PATHS ! 7 = \<lparr>path = ''/etc/passwd'', level = zeroAccess\<rparr>"
   "DEFAULT_PROTECTED_PATHS ! 36 = \<lparr>path = ''/etc/'', level = readOnly\<rparr>"
  by (simp_all add: DEFAULT_PROTECTED_PATHS_def)

lemma checkPathProtection_first:
  "list_all (\<lambda>q. checkPathProtection env f [q] = Inr None) pre \<Longrightarrow>
   checkPathProtection env f [p] = Inr (Some p) \<Longrightarrow>
   checkPathProtection env f (pre @ p # post) = Inr (Some p)"
  by (induction pre) (auto simp: Let_def split: if_splits sum.splits)

lemma checkPathProtection_none:
  "list_all (\<lambda>q. checkPathProtection env f [q] = Inr None) ps \<Longrightarrow>
   checkPathProtection env f ps = Inr None"
  by (induction ps) (auto simp: Let_def split: if_splits sum.splits)

text \<open>
  The patterns are compiled with the flag \<^verbatim>\<open>i\<close>: a command matches in whatever case it
  is written, and the text reported is the text of the command, in its own case. The
  first command is in upper case against patterns in lower case, the other two are in
  mixed and in lower case against a pattern in upper case.
\<close>

lemma case_instances:
  "matchPattern ''RM  -RF /tmp/x''
        [\<lparr>pattern = bsl ''rm%s+-rf'', reason = ''specific'', action = block\<rparr>,
         \<lparr>pattern = ''rm'', reason = ''generic'', action = ask\<rparr>]
      = Inr (Some (''RM  -RF'', \<lparr>pattern = bsl ''rm%s+-rf'', reason = ''specific'', action = block\<rparr>))"
  "matchPattern ''Drop Table users''
        [\<lparr>pattern = ''rm'', reason = ''generic'', action = ask\<rparr>,
         \<lparr>pattern = bsl ''DROP%s+TABLE'', reason = ''sql'', action = block\<rparr>]
      = Inr (Some (''Drop Table'', \<lparr>pattern = bsl ''DROP%s+TABLE'', reason = ''sql'', action = block\<rparr>))"
  "matchPattern ''drop table users'' DEFAULT_PATTERNS
      = Inr (Some (''drop table'',
                   \<lparr>pattern = bsl ''DROP%s+TABLE'', reason = ''SQL DROP TABLE'', action = block\<rparr>))"
  by code_simp+

text \<open>
  Claim C2. \<^verbatim>\<open>matchPattern\<close> returns the first pattern in list order whose source,
  compiled without case distinction, matches somewhere in the command, with the matched
  substring (the source of the pattern when that substring is empty, and otherwise a
  part of the command), and it returns null when no pattern matches; this is on a list of
  patterns that satisfy the invariant of a command rule, that the source compiles; and
  a pattern that matches is returned when the patterns before it compile and do not
  match, whatever follows it. The
  match does not depend on the case of the command: \<^verbatim>\<open>RM  -RF /tmp/x\<close> is matched by
  \<^verbatim>\<open>rm\s+-rf\<close>, and \<^verbatim>\<open>Drop Table users\<close> and \<^verbatim>\<open>drop table users\<close> by
  \<^verbatim>\<open>DROP\s+TABLE\<close>, each with the text of the command as the matched text.
  \<^verbatim>\<open>checkPathProtection\<close> has the same discipline: a rule that matches is returned
  when no rule before it matches, whatever follows it. So for every value of
  \<^verbatim>\<open>HOME\<close> the path \<^verbatim>\<open>/etc/passwd\<close> gets the zeroAccess rule \<^verbatim>\<open>/etc/passwd\<close> of the
  default table (entry 7), not the readOnly rule \<^verbatim>\<open>/etc/\<close> (entry 36), which matches
  that path too.
\<close>

theorem C2_first_match_wins:
  "(list_all (\<lambda>p. \<not> isl (new_RegExp (pattern p) True)) ps \<longrightarrow>
      matchPattern command ps =
        Inr (case find (\<lambda>p. compiles_and_matches p command) ps of
               None \<Rightarrow> None
             | Some p \<Rightarrow> Some (match_text p command, p)))
   \<and> (list_all (\<lambda>p. \<not> isl (new_RegExp (pattern p) True) \<and> \<not> compiles_and_matches p command) earlier
        \<and> compiles_and_matches hit command \<longrightarrow>
      matchPattern command (earlier @ hit # later) = Inr (Some (match_text hit command, hit)))
   \<and> (match_text q command = pattern q
        \<or> (match_text q command \<noteq> [] \<and> sublist (match_text q command) command))
   \<and> (list_all (\<lambda>q. checkPathProtection env f [q] = Inr None) pre
        \<and> checkPathProtection env f [r] = Inr (Some r) \<longrightarrow>
      checkPathProtection env f (pre @ r # post) = Inr (Some r))
   \<and> (list_all (\<lambda>q. checkPathProtection env f [q] = Inr None) rules \<longrightarrow>
      checkPathProtection env f rules = Inr None)
   \<and> checkPathProtection env ''/etc/passwd'' DEFAULT_PROTECTED_PATHS
       = Inr (Some \<lparr>path = ''/etc/passwd'', level = zeroAccess\<rparr>)
   \<and> checkPathProtection env ''/etc/passwd'' [\<lparr>path = ''/etc/'', level = readOnly\<rparr>]
       = Inr (Some \<lparr>path = ''/etc/'', level = readOnly\<rparr>)
   \<and> DEFAULT_PROTECTED_PATHS ! 7 = \<lparr>path = ''/etc/passwd'', level = zeroAccess\<rparr>
   \<and> DEFAULT_PROTECTED_PATHS ! 36 = \<lparr>path = ''/etc/'', level = readOnly\<rparr>
   \<and> matchPattern ''RM  -RF /tmp/x''
        [\<lparr>pattern = bsl ''rm%s+-rf'', reason = ''specific'', action = block\<rparr>,
         \<lparr>pattern = ''rm'', reason = ''generic'', action = ask\<rparr>]
      = Inr (Some (''RM  -RF'', \<lparr>pattern = bsl ''rm%s+-rf'', reason = ''specific'', action = block\<rparr>))
   \<and> matchPattern ''Drop Table users''
        [\<lparr>pattern = ''rm'', reason = ''generic'', action = ask\<rparr>,
         \<lparr>pattern = bsl ''DROP%s+TABLE'', reason = ''sql'', action = block\<rparr>]
      = Inr (Some (''Drop Table'', \<lparr>pattern = bsl ''DROP%s+TABLE'', reason = ''sql'', action = block\<rparr>))
   \<and> matchPattern ''drop table users'' DEFAULT_PATTERNS
      = Inr (Some (''drop table'',
                   \<lparr>pattern = bsl ''DROP%s+TABLE'', reason = ''SQL DROP TABLE'', action = block\<rparr>))"
proof -
  have "(list_all (\<lambda>p. \<not> isl (new_RegExp (pattern p) True)) ps \<longrightarrow>
      matchPattern command ps =
        Inr (case find (\<lambda>p. compiles_and_matches p command) ps of
               None \<Rightarrow> None
             | Some p \<Rightarrow> Some (match_text p command, p)))
   \<and> (list_all (\<lambda>p. \<not> isl (new_RegExp (pattern p) True) \<and> \<not> compiles_and_matches p command) earlier
        \<and> compiles_and_matches hit command \<longrightarrow>
      matchPattern command (earlier @ hit # later) = Inr (Some (match_text hit command, hit)))
   \<and> (match_text q command = pattern q
        \<or> (match_text q command \<noteq> [] \<and> sublist (match_text q command) command))
   \<and> (list_all (\<lambda>q. checkPathProtection env f [q] = Inr None) pre
        \<and> checkPathProtection env f [r] = Inr (Some r) \<longrightarrow>
      checkPathProtection env f (pre @ r # post) = Inr (Some r))
   \<and> (list_all (\<lambda>q. checkPathProtection env f [q] = Inr None) rules \<longrightarrow>
      checkPathProtection env f rules = Inr None)"
    using matchPattern_first[of ps command] matchPattern_decided[of command earlier hit later]
      match_text_cases[of q command]
      checkPathProtection_first[of env f pre r post] checkPathProtection_none[of env f rules]
    by blast
  then show ?thesis
    using passwd_default[of env] passwd_etc[of env] order_default case_instances
    by (intro conjI) (erule conjE | assumption)+
qed

lemma first_match_instance:
  "list_all (\<lambda>p. \<not> isl (new_RegExp (pattern p) True))
     [\<lparr>pattern = bsl ''rm%s+-rf'', reason = ''specific'', action = block\<rparr>,
      \<lparr>pattern = ''rm'', reason = ''generic'', action = ask\<rparr>]"
  "(case find (\<lambda>p. compiles_and_matches p ''rm -rf /tmp/x'')
           [\<lparr>pattern = bsl ''rm%s+-rf'', reason = ''specific'', action = block\<rparr>,
            \<lparr>pattern = ''rm'', reason = ''generic'', action = ask\<rparr>] of
      None \<Rightarrow> None
    | Some p \<Rightarrow> Some (match_text p ''rm -rf /tmp/x'', p))
   = Some (''rm -rf'', \<lparr>pattern = bsl ''rm%s+-rf'', reason = ''specific'', action = block\<rparr>)"
  "list_all (\<lambda>q. checkPathProtection (Some ''/home/user'') ''/etc/passwd'' [q] = Inr None)
     [\<lparr>path = ''~/.ssh'', level = zeroAccess\<rparr>]"
  "checkPathProtection (Some ''/home/user'') ''/etc/passwd''
     [\<lparr>path = ''/etc/passwd'', level = zeroAccess\<rparr>]
   = Inr (Some \<lparr>path = ''/etc/passwd'', level = zeroAccess\<rparr>)"
  "list_all (\<lambda>q. checkPathProtection (Some ''/home/user'') ''/tmp/x'' [q] = Inr None)
     [\<lparr>path = ''~/.ssh'', level = zeroAccess\<rparr>, \<lparr>path = ''*.pem'', level = zeroAccess\<rparr>]"
  "list_all (\<lambda>p. \<not> isl (new_RegExp (pattern p) True) \<and> \<not> compiles_and_matches p ''rm -rf /tmp/x'')
     [\<lparr>pattern = ''sudo'', reason = ''other'', action = ask\<rparr>]"
  "compiles_and_matches \<lparr>pattern = bsl ''rm%s+-rf'', reason = ''specific'', action = block\<rparr>
     ''rm -rf /tmp/x''"
  "match_text \<lparr>pattern = bsl ''rm%s+-rf'', reason = ''specific'', action = block\<rparr> ''rm -rf /tmp/x''
     = ''rm -rf''"
  by code_simp+

theorem C2_first_match_wins_witness:
  "list_all (\<lambda>p. \<not> isl (new_RegExp (pattern p) True))
     [\<lparr>pattern = bsl ''rm%s+-rf'', reason = ''specific'', action = block\<rparr>,
      \<lparr>pattern = ''rm'', reason = ''generic'', action = ask\<rparr>]
   \<and> matchPattern ''rm -rf /tmp/x''
        [\<lparr>pattern = bsl ''rm%s+-rf'', reason = ''specific'', action = block\<rparr>,
         \<lparr>pattern = ''rm'', reason = ''generic'', action = ask\<rparr>]
      = Inr (Some (''rm -rf'', \<lparr>pattern = bsl ''rm%s+-rf'', reason = ''specific'', action = block\<rparr>))
   \<and> list_all (\<lambda>q. checkPathProtection (Some ''/home/user'') ''/etc/passwd'' [q] = Inr None)
        [\<lparr>path = ''~/.ssh'', level = zeroAccess\<rparr>]
   \<and> checkPathProtection (Some ''/home/user'') ''/etc/passwd''
        ([\<lparr>path = ''~/.ssh'', level = zeroAccess\<rparr>]
         @ \<lparr>path = ''/etc/passwd'', level = zeroAccess\<rparr>
         # [\<lparr>path = ''/etc/'', level = readOnly\<rparr>])
      = Inr (Some \<lparr>path = ''/etc/passwd'', level = zeroAccess\<rparr>)
   \<and> checkPathProtection (Some ''/home/user'') ''/tmp/x''
        [\<lparr>path = ''~/.ssh'', level = zeroAccess\<rparr>, \<lparr>path = ''*.pem'', level = zeroAccess\<rparr>]
      = Inr None
   \<and> list_all (\<lambda>p. \<not> isl (new_RegExp (pattern p) True) \<and> \<not> compiles_and_matches p ''rm -rf /tmp/x'')
        [\<lparr>pattern = ''sudo'', reason = ''other'', action = ask\<rparr>]
   \<and> compiles_and_matches \<lparr>pattern = bsl ''rm%s+-rf'', reason = ''specific'', action = block\<rparr>
        ''rm -rf /tmp/x''
   \<and> matchPattern ''rm -rf /tmp/x''
        ([\<lparr>pattern = ''sudo'', reason = ''other'', action = ask\<rparr>]
         @ \<lparr>pattern = bsl ''rm%s+-rf'', reason = ''specific'', action = block\<rparr>
         # [\<lparr>pattern = ''(unclosed'', reason = ''invalid'', action = ask\<rparr>])
      = Inr (Some (''rm -rf'', \<lparr>pattern = bsl ''rm%s+-rf'', reason = ''specific'', action = block\<rparr>))"
  using first_match_instance
    C2_first_match_wins[where ps = "[\<lparr>pattern = bsl ''rm%s+-rf'', reason = ''specific'', action = block\<rparr>,
                                     \<lparr>pattern = ''rm'', reason = ''generic'', action = ask\<rparr>]"
      and earlier = "[\<lparr>pattern = ''sudo'', reason = ''other'', action = ask\<rparr>]"
      and hit = "\<lparr>pattern = bsl ''rm%s+-rf'', reason = ''specific'', action = block\<rparr>"
      and later = "[\<lparr>pattern = ''(unclosed'', reason = ''invalid'', action = ask\<rparr>]"
      and command = "''rm -rf /tmp/x''" and env = "Some ''/home/user''" and f = "''/etc/passwd''"
      and pre = "[\<lparr>path = ''~/.ssh'', level = zeroAccess\<rparr>]"
      and r = "\<lparr>path = ''/etc/passwd'', level = zeroAccess\<rparr>"
      and post = "[\<lparr>path = ''/etc/'', level = readOnly\<rparr>]"]
    C2_first_match_wins[where env = "Some ''/home/user''" and f = "''/tmp/x''"
      and rules = "[\<lparr>path = ''~/.ssh'', level = zeroAccess\<rparr>,
                    \<lparr>path = ''*.pem'', level = zeroAccess\<rparr>]"]
  by simp

section \<open>The glob translation\<close>

lemma star_escape_Cons:
  "star_to_any (escape_meta (c # g)) =
     (if c \<in> set ''.+^${}()|[]'' \<or> c = bs then [bs, c]
      else if c = CHR ''*'' then ''.*'' else [c]) @ star_to_any (escape_meta g)"
  by (auto simp: star_to_any_def escape_meta_def bs_def)

lemma escaped_facts:
  "atom_escape (CHR ''.'') = Inr (PAtom (Chr (CHR ''.'')))"
  "atom_escape (CHR ''+'') = Inr (PAtom (Chr (CHR ''+'')))"
  "atom_escape (CHR ''^'') = Inr (PAtom (Chr (CHR ''^'')))"
  "atom_escape (CHR ''$'') = Inr (PAtom (Chr (CHR ''$'')))"
  "atom_escape (CHR ''{'') = Inr (PAtom (Chr (CHR ''{'')))"
  "atom_escape (CHR ''}'') = Inr (PAtom (Chr (CHR ''}'')))"
  "atom_escape (CHR ''('') = Inr (PAtom (Chr (CHR ''('')))"
  "atom_escape (CHR '')'') = Inr (PAtom (Chr (CHR '')'')))"
  "atom_escape (CHR ''|'') = Inr (PAtom (Chr (CHR ''|'')))"
  "atom_escape (CHR ''['') = Inr (PAtom (Chr (CHR ''['')))"
  "atom_escape (CHR '']'') = Inr (PAtom (Chr (CHR '']'')))"
  "atom_escape (CHR 0x5C) = Inr (PAtom (Chr (CHR 0x5C)))"
  by code_simp+

lemma escaped_meta_is_literal:
  "c \<in> set ''.+^${}()|[]'' \<or> c = bs \<Longrightarrow> atom_escape c = Inr (PAtom (Chr c))"
  using escaped_facts by (auto simp: bs_def)

lemma parse_escaped:
  "c \<in> set ''.+^${}()|[]'' \<or> c = bs \<Longrightarrow>
   parse (PS f [] None) (bs # c # rest) = parse (PS (push (PAtom (Chr c)) f) [] None) rest"
proof -
  assume "c \<in> set ''.+^${}()|[]'' \<or> c = bs"
  then have "atom_escape c = Inr (PAtom (Chr c))" by (rule escaped_meta_is_literal)
  then show ?thesis by simp
qed

lemma parse_any:
  "parse (PS (PFrame g as rs pd) [] None) (CHR ''.'' # CHR ''*'' # rest)
     = parse (PS (PFrame g as (flush pd rs) (PQuant QStar Dot)) [] None) rest"
  by (simp add: bs_def)

lemma parse_plain:
  "\<not> (c \<in> set ''.+^${}()|[]'' \<or> c = bs) \<Longrightarrow> c \<noteq> CHR ''*'' \<Longrightarrow> c \<noteq> CHR ''?'' \<Longrightarrow>
   parse (PS f [] None) (c # rest) = parse (PS (push (PAtom (Chr c)) f) [] None) rest"
  by simp

lemma parse_glob_body:
  "CHR ''?'' \<notin> set g \<Longrightarrow>
   \<exists>f'. parse (PS f [] None) (star_to_any (escape_meta g) @ rest) = parse (PS f' [] None) rest"
proof (induction g arbitrary: f)
  case Nil
  then show ?case by (auto simp: star_to_any_def escape_meta_def)
next
  case (Cons c g)
  then have q: "c \<noteq> CHR ''?''" and g: "CHR ''?'' \<notin> set g" by auto
  consider (meta) "c \<in> set ''.+^${}()|[]'' \<or> c = bs"
    | (star) "\<not> (c \<in> set ''.+^${}()|[]'' \<or> c = bs)" "c = CHR ''*''"
    | (plain) "\<not> (c \<in> set ''.+^${}()|[]'' \<or> c = bs)" "c \<noteq> CHR ''*''"
    by blast
  then show ?case
  proof cases
    case meta
    have e: "star_to_any (escape_meta (c # g)) @ rest
               = bs # c # (star_to_any (escape_meta g) @ rest)"
      using meta by (simp add: star_escape_Cons)
    from Cons.IH[OF g, of "push (PAtom (Chr c)) f"] show ?thesis
      unfolding e parse_escaped[OF meta] .
  next
    case star
    obtain k as rs pd where f: "f = PFrame k as rs pd" by (cases f)
    have e: "star_to_any (escape_meta (c # g)) @ rest
               = CHR ''.'' # CHR ''*'' # (star_to_any (escape_meta g) @ rest)"
      using star by (simp add: star_escape_Cons)
    from Cons.IH[OF g, of "PFrame k as (flush pd rs) (PQuant QStar Dot)"] show ?thesis
      unfolding e f parse_any .
  next
    case plain
    have e: "star_to_any (escape_meta (c # g)) @ rest
               = c # (star_to_any (escape_meta g) @ rest)"
      using plain by (simp add: star_escape_Cons)
    from Cons.IH[OF g, of "push (PAtom (Chr c)) f"] show ?thesis
      unfolding e parse_plain[OF plain(1) plain(2) q] .
  qed
qed

lemma glob_compiles: "CHR ''?'' \<notin> set g \<Longrightarrow> \<exists>regex. globToRegex g = Inr regex"
proof -
  assume "CHR ''?'' \<notin> set g"
  from parse_glob_body[OF this, of "push (PFinal Bol) (new_frame GTop)" "''$''"]
  obtain f' where
    "parse (PS (push (PFinal Bol) (new_frame GTop)) [] None) (star_to_any (escape_meta g) @ ''$'')
       = parse (PS f' [] None) ''$''" by blast
  then show ?thesis
    by (simp add: globToRegex_def new_RegExp_def bs_def)
qed

section \<open>The first violated rule\<close>

lemma checkShellPathViolation_first:
  "list_all (\<lambda>q. ruleViolation env c q = Inr None) pre \<Longrightarrow>
   ruleViolation env c p = Inr (Some operation) \<Longrightarrow>
   checkShellPathViolation env c (pre @ p # post) = Inr (Some (p, operation))"
  by (induction pre) auto

lemma checkShellPathViolation_none:
  "list_all (\<lambda>q. ruleViolation env c q = Inr None) ps \<Longrightarrow>
   checkShellPathViolation env c ps = Inr None"
  by (induction ps) auto

lemma ruleViolation_levels:
  "(ruleViolation env c \<lparr>path = x, level = zeroAccess\<rparr> = Inr (Some operation))
     = (commandReferencesPath env c x = Inr True \<and> operation = access)"
  "(ruleViolation env c \<lparr>path = x, level = readOnly\<rparr> = Inr (Some operation))
     = (isShellWrite env c x = Inr True \<and> operation = write
        \<or> isShellWrite env c x = Inr False \<and> isShellDelete env c x = Inr True \<and> operation = delete)"
  "(ruleViolation env c \<lparr>path = x, level = noDelete\<rparr> = Inr (Some operation))
     = (isShellDelete env c x = Inr True \<and> operation = delete)"
  by (auto simp: ruleViolation_def split: sum.splits)

lemma glob_question_throws: "globToRegex ''?*'' = Inl SyntaxError"
  by code_simp

text \<open>
  A rule whose path has no \<^verbatim>\<open>?\<close> is always decided: its check does not throw.
\<close>

lemma commandReferencesPath_total:
  "CHR ''?'' \<notin> set x \<Longrightarrow> \<exists>b. commandReferencesPath env c x = Inr b"
proof -
  assume "CHR ''?'' \<notin> set x"
  then obtain regex where "globToRegex x = Inr regex" using glob_compiles by blast
  then show ?thesis by (simp add: commandReferencesPath_def Let_def)
qed

lemma ruleViolation_total:
  assumes "CHR ''?'' \<notin> set (path p)"
  shows "\<exists>v. ruleViolation env c p = Inr v"
proof -
  from assms obtain b where "commandReferencesPath env c (path p) = Inr b"
    using commandReferencesPath_total by blast
  then show ?thesis
    by (cases "level p") (simp_all add: ruleViolation_def isShellWrite_def isShellDelete_def)
qed

text \<open>
  Claim C1. For every command and every list of path rules,
  \<^verbatim>\<open>checkShellPathViolation\<close> returns the first rule in list order that is violated,
  with its operation, and null when no rule is violated. The lemmas above prove this
  for every list whose rules are decided, which includes every list without \<^verbatim>\<open>?\<close> in
  a path. The claim is about every list, and the code does not meet it: \<^verbatim>\<open>globToRegex\<close>
  leaves \<^verbatim>\<open>?\<close> without a backslash, although it sets out to escape the
  metacharacters, so the rule path \<^verbatim>\<open>?*\<close> becomes the invalid pattern \<^verbatim>\<open>^?.*$\<close>.
  The command \<^verbatim>\<open>ls\<close> does not mention a file of such a name, so no rule is violated
  and the claim has the call return null; the call throws a SyntaxError.
\<close>

theorem C1_invalid_glob_throws:
  "globToRegex ''?*'' = Inl SyntaxError
   \<and> commandReferencesPath env ''ls'' ''?*'' = Inl SyntaxError
   \<and> checkShellPathViolation env ''ls'' [\<lparr>path = ''?*'', level = zeroAccess\<rparr>]
       = Inl SyntaxError"
  by (simp add: ruleViolation_def commandReferencesPath_def isGlobPattern_def
        glob_question_throws)

section \<open>One path rule against a file path\<close>

lemma spec_escape_eq: "CHR ''?'' \<notin> set g \<Longrightarrow> spec_escape g = escape_meta g"
  unfolding spec_escape_def escape_meta_def
  by (rule arg_cong[where f = concat], rule map_cong) auto

text \<open>
  The basename that the code computes is the final segment of the path after its
  trailing slashes are trimmed.
\<close>

lemma trim_empty_iff: "(spec_trim_slashes f = []) = (\<forall>c\<in>set f. c = CHR ''/'')"
  by (induction f) (auto simp: Let_def)

lemma trim_slashes_eq:
  "rev (dropWhile (\<lambda>c. c = CHR ''/'') (rev f)) = spec_trim_slashes f"
proof (induction f)
  case Nil
  then show ?case by simp
next
  case (Cons c f)
  then have r: "dropWhile (\<lambda>c. c = CHR ''/'') (rev f) = rev (spec_trim_slashes f)"
    by (metis rev_rev_ident)
  show ?case
    by (auto simp: Let_def dropWhile_append trim_empty_iff r)
qed

lemma final_segment_plain: "CHR ''/'' \<notin> set t \<Longrightarrow> spec_final_segment t = t"
  by (cases t) auto

lemma final_segment_eq:
  "rev (takeWhile (\<lambda>c. c \<noteq> CHR ''/'') (rev t)) = spec_final_segment t"
proof (induction t)
  case Nil
  then show ?case by simp
next
  case (Cons c t)
  show ?case
  proof (cases "CHR ''/'' \<in> set t")
    case True
    then have "takeWhile (\<lambda>c. c \<noteq> CHR ''/'') (rev t @ [c]) = takeWhile (\<lambda>c. c \<noteq> CHR ''/'') (rev t)"
      by (intro takeWhile_append1[where x = "CHR ''/''"]) auto
    with True Cons show ?thesis by simp
  next
    case False
    then have "takeWhile (\<lambda>c. c \<noteq> CHR ''/'') (rev t @ [c])
                 = rev t @ takeWhile (\<lambda>c. c \<noteq> CHR ''/'') [c]"
      by (intro takeWhile_append2) auto
    with False show ?thesis by (auto simp: final_segment_plain)
  qed
qed

lemma basename_eq: "basename f = spec_basename f"
  by (simp add: basename_def spec_basename_def trim_slashes_eq final_segment_eq)

text \<open>
  A replacement text without one of the four patterns is inserted as it is.
\<close>

lemma getSubstitution_plain:
  "\<not> replacement_pattern t \<Longrightarrow> getSubstitution mt a b t = t"
  by (induction mt a b t rule: getSubstitution.induct) auto

lemma replace_first_plain:
  "\<not> replacement_pattern h \<Longrightarrow> replace_first p (CHR ''~'') h = expand_first_tilde h p"
proof (cases "CHR ''~'' \<in> set p")
  case False
  then show ?thesis by (simp add: replace_first_absent expand_first_tilde_def)
next
  case True
  assume h: "\<not> replacement_pattern h"
  from True have "dropWhile (\<lambda>x. x \<noteq> CHR ''~'') p \<noteq> []" by auto
  then obtain y ys where d: "dropWhile (\<lambda>x. x \<noteq> CHR ''~'') p = y # ys"
    by (cases "dropWhile (\<lambda>x. x \<noteq> CHR ''~'') p") auto
  show ?thesis using True h d
    by (simp add: replace_first_def expand_first_tilde_def getSubstitution_plain Let_def
          del: dropWhile_eq_Nil_conv)
qed

lemma glob_rule_matches:
  assumes "CHR ''*'' \<in> set (path p)" and "CHR ''?'' \<notin> set (path p)"
  shows "(checkPathProtection env f [p] = Inr (Some p))
         = (case new_RegExp (spec_glob_source (path p)) False of
              Inr regex \<Rightarrow> regex_test regex (spec_basename f)
            | Inl _ \<Rightarrow> False)"
  using assms
  by (auto simp: isGlobPattern_def globToRegex_def spec_glob_source_def spec_escape_eq
             basename_eq
           split: sum.splits)

lemma literal_rule_matches:
  assumes "CHR ''*'' \<notin> set (path p)" and "\<not> replacement_pattern (home_value env)"
  shows "(checkPathProtection env f [p] = Inr (Some p))
         = (includes f (expand_first_tilde (home_value env) (path p)) \<or> includes f (path p))"
  using assms by (auto simp: isGlobPattern_def replace_first_plain Let_def)

text \<open>
  Globs that do not begin with \<^verbatim>\<open>*\<close> tell the basename from the whole path: the
  anchored pattern of \<^verbatim>\<open>.env*\<close> accepts \<^verbatim>\<open>.env.local\<close> and not the path that ends with
  it, and it accepts the basename \<^verbatim>\<open>.env.d\<close> of a path that ends with a slash.
\<close>

lemma basename_examples:
  "checkPathProtection env ''/home/user/.env.local'' [\<lparr>path = ''.env*'', level = zeroAccess\<rparr>]
     = Inr (Some \<lparr>path = ''.env*'', level = zeroAccess\<rparr>)"
  "checkPathProtection env ''/srv/app/docker-compose.prod.yml''
       [\<lparr>path = ''docker-compose*.yml'', level = noDelete\<rparr>]
     = Inr (Some \<lparr>path = ''docker-compose*.yml'', level = noDelete\<rparr>)"
  "checkPathProtection env ''/srv/app/.env.d/'' [\<lparr>path = ''.env*'', level = zeroAccess\<rparr>]
     = Inr (Some \<lparr>path = ''.env*'', level = zeroAccess\<rparr>)"
  "checkPathProtection env ''/srv/app/.env.d/config'' [\<lparr>path = ''.env*'', level = zeroAccess\<rparr>]
     = Inr None"
  by code_simp+

lemma basename_values:
  "spec_basename ''/home/user/.env.local'' = ''.env.local''"
  "spec_basename ''/home/user/dist/'' = ''dist''"
  "spec_basename ''notes.txt'' = ''notes.txt''"
  by code_simp+

lemma pem_examples:
  "checkPathProtection env ''/any/deep/path/server.pem'' [\<lparr>path = ''*.pem'', level = zeroAccess\<rparr>]
     = Inr (Some \<lparr>path = ''*.pem'', level = zeroAccess\<rparr>)"
  "checkPathProtection env ''/any/deep/path.pem/notes.txt'' [\<lparr>path = ''*.pem'', level = zeroAccess\<rparr>]
     = Inr None"
  by code_simp+

lemma dist_example:
  "checkPathProtection env ''/any/project/dist/index.js'' [\<lparr>path = ''dist/'', level = readOnly\<rparr>]
     = Inr (Some \<lparr>path = ''dist/'', level = readOnly\<rparr>)"
proof -
  have "includes ''/any/project/dist/index.js'' ''dist/''" by code_simp
  then show ?thesis by (simp add: isGlobPattern_def replace_first_absent Let_def)
qed

text \<open>
  Claim C4 as the specification words it is refuted at three inputs. The rule
  \<^verbatim>\<open>a?*\<close> matches the file \<^verbatim>\<open>/tmp/b\<close>, because \<^verbatim>\<open>?\<close> is not escaped and makes the
  \<^verbatim>\<open>a\<close> optional. The rule \<^verbatim>\<open>notes~\<close> matches \<^verbatim>\<open>/srv/notes/home/user\<close> with the
  home \<^verbatim>\<open>/home/user\<close>, because the first \<^verbatim>\<open>~\<close> is expanded wherever it stands, not
  only a leading one. With the home \<^verbatim>\<open>/home/a$$b\<close> the rule \<^verbatim>\<open>~/.ssh\<close> does not match
  \<^verbatim>\<open>/home/a$$b/.ssh/id_rsa\<close>, because \<^verbatim>\<open>replace\<close> reads \<^verbatim>\<open>$$\<close> in the home value as
  one \<^verbatim>\<open>$\<close>.
\<close>

theorem C4_counterexample:
  "checkPathProtection (Some ''/home/user'') ''/tmp/b'' [\<lparr>path = ''a?*'', level = zeroAccess\<rparr>]
     = Inr (Some \<lparr>path = ''a?*'', level = zeroAccess\<rparr>)
   \<and> \<not> spec_rule_matches ''/home/user'' ''/tmp/b'' \<lparr>path = ''a?*'', level = zeroAccess\<rparr>
   \<and> checkPathProtection (Some ''/home/user'') ''/srv/notes/home/user''
         [\<lparr>path = ''notes~'', level = readOnly\<rparr>]
     = Inr (Some \<lparr>path = ''notes~'', level = readOnly\<rparr>)
   \<and> \<not> spec_rule_matches ''/home/user'' ''/srv/notes/home/user'' \<lparr>path = ''notes~'', level = readOnly\<rparr>
   \<and> checkPathProtection (Some ''/home/a$$b'') ''/home/a$$b/.ssh/id_rsa''
         [\<lparr>path = ''~/.ssh'', level = zeroAccess\<rparr>] = Inr None
   \<and> spec_rule_matches ''/home/a$$b'' ''/home/a$$b/.ssh/id_rsa'' \<lparr>path = ''~/.ssh'', level = zeroAccess\<rparr>"
  by code_simp

text \<open>
  Claim C4, amended. For every file path, every value of \<^verbatim>\<open>HOME\<close> and every path
  rule: when the path of the rule has a \<^verbatim>\<open>*\<close> and no \<^verbatim>\<open>?\<close>, the rule matches exactly
  when the regular expression obtained by escaping the metacharacters, replacing each
  \<^verbatim>\<open>*\<close> by \<^verbatim>\<open>.*\<close> and anchoring accepts the basename of the file path, which is the
  final segment of the path after its trailing slashes are trimmed. So \<^verbatim>\<open>*.pem\<close>
  matches \<^verbatim>\<open>/any/deep/path/server.pem\<close> and not \<^verbatim>\<open>/any/deep/path.pem/notes.txt\<close>,
  and \<^verbatim>\<open>.env*\<close> matches \<^verbatim>\<open>/home/user/.env.local\<close> and \<^verbatim>\<open>/srv/app/.env.d/\<close> and not
  \<^verbatim>\<open>/srv/app/.env.d/config\<close>. When the path of the rule has no \<^verbatim>\<open>*\<close> and the home
  value holds none of the replacement patterns \<^verbatim>\<open>$$\<close>, \<^verbatim>\<open>$&\<close>, \<^verbatim>\<open>$\<close> with a backquote
  and \<^verbatim>\<open>$\<close> with a quote, the rule matches exactly when the file path contains the
  path of the rule with its first \<^verbatim>\<open>~\<close>, leading or not, replaced by the home value,
  or contains the path of the rule as it is, so \<^verbatim>\<open>dist/\<close> matches
  \<^verbatim>\<open>/any/project/dist/index.js\<close>.
\<close>

theorem C4_path_rule_matching:
  "(CHR ''*'' \<in> set (path p) \<and> CHR ''?'' \<notin> set (path p) \<longrightarrow>
      (checkPathProtection env f [p] = Inr (Some p))
        = (case new_RegExp (spec_glob_source (path p)) False of
             Inr regex \<Rightarrow> regex_test regex (spec_basename f)
           | Inl _ \<Rightarrow> False))
   \<and> (CHR ''*'' \<notin> set (path p) \<and> \<not> replacement_pattern (home_value env) \<longrightarrow>
      (checkPathProtection env f [p] = Inr (Some p))
        = (includes f (expand_first_tilde (home_value env) (path p)) \<or> includes f (path p)))
   \<and> checkPathProtection env ''/any/deep/path/server.pem''
         [\<lparr>path = ''*.pem'', level = zeroAccess\<rparr>]
       = Inr (Some \<lparr>path = ''*.pem'', level = zeroAccess\<rparr>)
   \<and> checkPathProtection env ''/any/deep/path.pem/notes.txt''
         [\<lparr>path = ''*.pem'', level = zeroAccess\<rparr>] = Inr None
   \<and> checkPathProtection env ''/any/project/dist/index.js''
         [\<lparr>path = ''dist/'', level = readOnly\<rparr>]
       = Inr (Some \<lparr>path = ''dist/'', level = readOnly\<rparr>)
   \<and> checkPathProtection env ''/home/user/.env.local'' [\<lparr>path = ''.env*'', level = zeroAccess\<rparr>]
       = Inr (Some \<lparr>path = ''.env*'', level = zeroAccess\<rparr>)
   \<and> checkPathProtection env ''/srv/app/docker-compose.prod.yml''
         [\<lparr>path = ''docker-compose*.yml'', level = noDelete\<rparr>]
       = Inr (Some \<lparr>path = ''docker-compose*.yml'', level = noDelete\<rparr>)
   \<and> checkPathProtection env ''/srv/app/.env.d/'' [\<lparr>path = ''.env*'', level = zeroAccess\<rparr>]
       = Inr (Some \<lparr>path = ''.env*'', level = zeroAccess\<rparr>)
   \<and> checkPathProtection env ''/srv/app/.env.d/config'' [\<lparr>path = ''.env*'', level = zeroAccess\<rparr>]
       = Inr None
   \<and> spec_basename ''/home/user/.env.local'' = ''.env.local''
   \<and> spec_basename ''/home/user/dist/'' = ''dist''
   \<and> spec_basename ''notes.txt'' = ''notes.txt''"
proof -
  have "(CHR ''*'' \<in> set (path p) \<and> CHR ''?'' \<notin> set (path p) \<longrightarrow>
      (checkPathProtection env f [p] = Inr (Some p))
        = (case new_RegExp (spec_glob_source (path p)) False of
             Inr regex \<Rightarrow> regex_test regex (spec_basename f)
           | Inl _ \<Rightarrow> False))
   \<and> (CHR ''*'' \<notin> set (path p) \<and> \<not> replacement_pattern (home_value env) \<longrightarrow>
      (checkPathProtection env f [p] = Inr (Some p))
        = (includes f (expand_first_tilde (home_value env) (path p)) \<or> includes f (path p)))"
    using glob_rule_matches[of p env f] literal_rule_matches[of p env f] by blast
  then show ?thesis
    using pem_examples[of env] dist_example[of env] basename_examples[of env] basename_values
    by (intro conjI) (erule conjE | assumption)+
qed

lemma path_rule_instances:
  "CHR ''*'' \<in> set ''.env*''" "CHR ''?'' \<notin> set ''.env*''"
  "(case new_RegExp (spec_glob_source ''.env*'') False of
      Inr regex \<Rightarrow> regex_test regex (spec_basename ''/srv/app/.env.d/'')
    | Inl _ \<Rightarrow> False)"
  "CHR ''*'' \<notin> set ''~/.ssh''" "\<not> replacement_pattern (home_value (Some ''/home/a$b''))"
  "includes ''/home/a$b/.ssh/id_rsa'' (expand_first_tilde (home_value (Some ''/home/a$b'')) ''~/.ssh'')"
  by code_simp+

theorem C4_path_rule_matching_witness:
  "CHR ''*'' \<in> set ''.env*'' \<and> CHR ''?'' \<notin> set ''.env*''
   \<and> checkPathProtection None ''/srv/app/.env.d/'' [\<lparr>path = ''.env*'', level = zeroAccess\<rparr>]
       = Inr (Some \<lparr>path = ''.env*'', level = zeroAccess\<rparr>)
   \<and> CHR ''*'' \<notin> set ''~/.ssh'' \<and> \<not> replacement_pattern (home_value (Some ''/home/a$b''))
   \<and> checkPathProtection (Some ''/home/a$b'') ''/home/a$b/.ssh/id_rsa''
         [\<lparr>path = ''~/.ssh'', level = zeroAccess\<rparr>]
       = Inr (Some \<lparr>path = ''~/.ssh'', level = zeroAccess\<rparr>)"
  using path_rule_instances
    C4_path_rule_matching[where p = "\<lparr>path = ''.env*'', level = zeroAccess\<rparr>"
      and f = "''/srv/app/.env.d/''" and env = None]
    C4_path_rule_matching[where p = "\<lparr>path = ''~/.ssh'', level = zeroAccess\<rparr>"
      and f = "''/home/a$b/.ssh/id_rsa''" and env = "Some ''/home/a$b''"]
  by simp

section \<open>Applying an overlay to the defaults\<close>

text \<open>
  The two results of \<^verbatim>\<open>applyConfig\<close> as one expression each, and the comparison
  with the three steps of the specification.
\<close>

lemma read_member_own:
  "key \<notin> set OBJECT_PROTOTYPE \<Longrightarrow> read_member obj key = map_option Own (map_of obj key)"
  by (auto simp: read_member_def split: option.splits)

lemma override_paths_eq:
  "override_paths ov acc ps =
     acc @ concat (map (\<lambda>p. case read_member ov (path_of p) of
                                Some (Own none) \<Rightarrow> []
                              | Some (Own (Level l)) \<Rightarrow> [p\<lparr>level_of := Own l\<rparr>]
                              | Some (Inherited key) \<Rightarrow> [p\<lparr>level_of := Inherited key\<rparr>]
                              | None \<Rightarrow> [p]) ps)"
  by (induction ps arbitrary: acc) (auto split: option.splits LevelOrNone.splits member.splits)

lemma applyConfig_patterns:
  "fst (applyConfig cfg dps dpaths) =
     (let patterns1 = filter (\<lambda>p. reason_of p \<notin> set (field_or_empty pat_remove (patterns cfg)))
                        (map pattern_object dps);
          patterns2 = (case Option.bind (patterns cfg) pat_override of
                         None \<Rightarrow> patterns1
                       | Some ov \<Rightarrow>
                           map (\<lambda>p. case read_member ov (reason_of p) of
                                       Some a \<Rightarrow> p\<lparr>action_of := a\<rparr>
                                     | None \<Rightarrow> p) patterns1)
      in patterns2 @ map pattern_object (field_or_empty pat_add (patterns cfg)))"
  by (simp add: applyConfig_def field_or_empty_def Let_def split: option.splits)

lemma applyConfig_paths:
  "snd (applyConfig cfg dps dpaths) =
     (let paths1 = filter (\<lambda>p. path_of p \<notin> set (field_or_empty path_remove (paths cfg)))
                     (map path_object dpaths);
          paths2 = (case Option.bind (paths cfg) path_override of
                      None \<Rightarrow> paths1
                    | Some ov \<Rightarrow>
                        concat (map (\<lambda>p. case read_member ov (path_of p) of
                                            Some (Own none) \<Rightarrow> []
                                          | Some (Own (Level l)) \<Rightarrow> [p\<lparr>level_of := Own l\<rparr>]
                                          | Some (Inherited key) \<Rightarrow> [p\<lparr>level_of := Inherited key\<rparr>]
                                          | None \<Rightarrow> [p]) paths1))
      in paths2 @ map path_object (field_or_empty path_add (paths cfg)))"
  by (simp add: applyConfig_def field_or_empty_def Let_def override_paths_eq
           split: option.splits)

lemma filter_pattern_objects:
  "filter (\<lambda>p. reason_of p \<notin> S) (map pattern_object ps)
     = map pattern_object (filter (\<lambda>p. reason p \<notin> S) ps)"
  by (induction ps) (auto simp: pattern_object_def)

lemma filter_path_objects:
  "filter (\<lambda>p. path_of p \<notin> S) (map path_object ps)
     = map path_object (filter (\<lambda>p. path p \<notin> S) ps)"
  by (induction ps) (auto simp: path_object_def)

lemma override_pattern_objects:
  "list_all (\<lambda>p. reason p \<notin> set OBJECT_PROTOTYPE) ps \<Longrightarrow>
   map (\<lambda>p. case read_member ov (reason_of p) of
               Some a \<Rightarrow> p\<lparr>action_of := a\<rparr>
             | None \<Rightarrow> p) (map pattern_object ps)
     = map pattern_object
         (map (\<lambda>p. case map_of ov (reason p) of Some a \<Rightarrow> p\<lparr>action := a\<rparr> | None \<Rightarrow> p) ps)"
  by (induction ps) (auto simp: pattern_object_def read_member_own split: option.splits)

lemma override_path_objects:
  "list_all (\<lambda>p. path p \<notin> set OBJECT_PROTOTYPE) ps \<Longrightarrow>
   concat (map (\<lambda>p. case read_member ov (path_of p) of
                       Some (Own none) \<Rightarrow> []
                     | Some (Own (Level l)) \<Rightarrow> [p\<lparr>level_of := Own l\<rparr>]
                     | Some (Inherited key) \<Rightarrow> [p\<lparr>level_of := Inherited key\<rparr>]
                     | None \<Rightarrow> [p]) (map path_object ps))
     = map path_object
         (concat (map (\<lambda>p. case map_of ov (path p) of
                              Some none \<Rightarrow> []
                            | Some (Level l) \<Rightarrow> [p\<lparr>level := l\<rparr>]
                            | None \<Rightarrow> [p]) ps))"
  by (induction ps)
     (auto simp: path_object_def read_member_own split: option.splits LevelOrNone.splits)

lemma field_or_empty_bind:
  "field_or_empty field c = (case Option.bind c field of None \<Rightarrow> [] | Some xs \<Rightarrow> xs)"
  by (simp add: field_or_empty_def split: option.splits)

lemma no_override_patterns:
  "map (\<lambda>p. case map_of [] (reason p) of Some a \<Rightarrow> p\<lparr>action := a\<rparr> | None \<Rightarrow> p) ps = ps"
  by (induction ps) auto

lemma no_override_paths:
  "concat (map (\<lambda>p. case map_of [] (path p) of
                       Some none \<Rightarrow> []
                     | Some (Level l) \<Rightarrow> [p\<lparr>level := l\<rparr>]
                     | None \<Rightarrow> [p]) ps) = ps"
  by (induction ps) auto

text \<open>
  On defaults whose keys are not names of \<^verbatim>\<open>Object.prototype\<close>, \<open>applyConfig\<close> computes
  what the specification describes.
\<close>

lemma applyConfig_patterns_spec:
  assumes "list_all (\<lambda>p. reason p \<notin> set OBJECT_PROTOTYPE) dps"
  shows "fst (applyConfig cfg dps dpaths)
           = map pattern_object (spec_apply_patterns (patterns cfg) dps)"
proof -
  define ps1 where
    "ps1 = filter (\<lambda>p. reason p \<notin> set (field_or_empty pat_remove (patterns cfg))) dps"
  have l: "list_all (\<lambda>p. reason p \<notin> set OBJECT_PROTOTYPE) ps1"
    using assms by (simp add: list_all_iff ps1_def)
  show ?thesis
  proof (cases "Option.bind (patterns cfg) pat_override")
    case None
    then have "field_or_empty pat_override (patterns cfg) = []"
      by (simp add: field_or_empty_bind)
    with None show ?thesis
      unfolding applyConfig_patterns spec_apply_patterns_def Let_def filter_pattern_objects
      by (simp add: no_override_patterns)
  next
    case (Some ov)
    then have "field_or_empty pat_override (patterns cfg) = ov"
      by (simp add: field_or_empty_bind)
    with Some show ?thesis
      unfolding applyConfig_patterns spec_apply_patterns_def Let_def filter_pattern_objects
      using override_pattern_objects[OF l, of ov] by (simp add: ps1_def)
  qed
qed

lemma applyConfig_paths_spec:
  assumes "list_all (\<lambda>p. path p \<notin> set OBJECT_PROTOTYPE) dpaths"
  shows "snd (applyConfig cfg dps dpaths)
           = map path_object (spec_apply_paths (paths cfg) dpaths)"
proof -
  define ps1 where
    "ps1 = filter (\<lambda>p. path p \<notin> set (field_or_empty path_remove (paths cfg))) dpaths"
  have l: "list_all (\<lambda>p. path p \<notin> set OBJECT_PROTOTYPE) ps1"
    using assms by (simp add: list_all_iff ps1_def)
  show ?thesis
  proof (cases "Option.bind (paths cfg) path_override")
    case None
    then have "field_or_empty path_override (paths cfg) = []"
      by (simp add: field_or_empty_bind)
    with None show ?thesis
      unfolding applyConfig_paths spec_apply_paths_def Let_def filter_path_objects
      by (simp add: no_override_paths)
  next
    case (Some ov)
    then have "field_or_empty path_override (paths cfg) = ov"
      by (simp add: field_or_empty_bind)
    with Some show ?thesis
      unfolding applyConfig_paths spec_apply_paths_def Let_def filter_path_objects
      using override_path_objects[OF l, of ov] by (simp add: ps1_def)
  qed
qed

text \<open>The built-in tables have no such key.\<close>

lemma default_keys_not_inherited:
  "list_all (\<lambda>p. reason p \<notin> set OBJECT_PROTOTYPE) DEFAULT_PATTERNS"
  "list_all (\<lambda>p. path p \<notin> set OBJECT_PROTOTYPE) DEFAULT_PROTECTED_PATHS"
  by (simp_all add: DEFAULT_PATTERNS_def DEFAULT_PROTECTED_PATHS_def OBJECT_PROTOTYPE_def)

text \<open>A key that is removed stays removed, whatever the override says.\<close>

lemma removed_pattern_stays_removed:
  "X \<in> set (field_or_empty pat_remove (patterns cfg)) \<Longrightarrow>
   X \<notin> reason ` set (field_or_empty pat_add (patterns cfg)) \<Longrightarrow>
   X \<notin> reason_of ` set (fst (applyConfig cfg dps dpaths))"
  by (auto simp: applyConfig_patterns Let_def pattern_object_def split: option.splits)

lemma removed_path_stays_removed:
  "Y \<in> set (field_or_empty path_remove (paths cfg)) \<Longrightarrow>
   Y \<notin> path ` set (field_or_empty path_add (paths cfg)) \<Longrightarrow>
   Y \<notin> path_of ` set (snd (applyConfig cfg dps dpaths))"
  by (auto simp: applyConfig_paths Let_def path_object_def
           split: option.splits LevelOrNone.splits member.splits)

lemma remove_then_override_pattern:
  "X \<notin> reason_of ` set (fst (applyConfig
      \<lparr>patterns = Some \<lparr>pat_add = None, pat_remove = Some [X], pat_override = Some [(X, v)]\<rparr>,
       paths = None\<rparr> dps dpaths))"
  by (rule removed_pattern_stays_removed) (simp_all add: field_or_empty_def)

lemma remove_then_override_path:
  "Y \<notin> path_of ` set (snd (applyConfig
      \<lparr>patterns = None,
       paths = Some \<lparr>path_add = None, path_remove = Some [Y], path_override = Some [(Y, w)]\<rparr>\<rparr>
      dps dpaths))"
  by (rule removed_path_stays_removed) (simp_all add: field_or_empty_def)

text \<open>
  Removing a key that no default has changes nothing. Overriding such a key changes
  nothing when no default has a key that \<^verbatim>\<open>Object.prototype\<close> has.
\<close>

lemma filter_absent_objects:
  "X \<notin> reason ` set dps \<Longrightarrow>
   filter (\<lambda>p. reason_of p \<noteq> X) (map pattern_object dps) = map pattern_object dps"
  "Y \<notin> path ` set dpaths \<Longrightarrow>
   filter (\<lambda>p. path_of p \<noteq> Y) (map path_object dpaths) = map path_object dpaths"
  by (induction dps, auto simp: pattern_object_def) (induction dpaths, auto simp: path_object_def)

lemma absent_remove_is_noop:
  "X \<notin> reason ` set dps \<Longrightarrow>
   applyConfig \<lparr>patterns = Some \<lparr>pat_add = None, pat_remove = Some [X], pat_override = None\<rparr>,
                paths = None\<rparr> dps dpaths = (map pattern_object dps, map path_object dpaths)"
  "Y \<notin> path ` set dpaths \<Longrightarrow>
   applyConfig \<lparr>patterns = None,
                paths = Some \<lparr>path_add = None, path_remove = Some [Y], path_override = None\<rparr>\<rparr>
     dps dpaths = (map pattern_object dps, map path_object dpaths)"
  by (simp_all add: applyConfig_def Let_def filter_absent_objects)

lemma spec_absent_override:
  "X \<notin> reason ` set dps \<Longrightarrow>
   spec_apply_patterns (Some \<lparr>pat_add = None, pat_remove = None, pat_override = Some [(X, v)]\<rparr>) dps
     = dps"
  "Y \<notin> path ` set dpaths \<Longrightarrow>
   spec_apply_paths (Some \<lparr>path_add = None, path_remove = None, path_override = Some [(Y, w)]\<rparr>)
       dpaths
     = dpaths"
  by (induction dps, auto simp: spec_apply_patterns_def field_or_empty_def)
     (induction dpaths, auto simp: spec_apply_paths_def field_or_empty_def)

lemma absent_override_is_noop:
  "X \<notin> reason ` set dps \<Longrightarrow> list_all (\<lambda>p. reason p \<notin> set OBJECT_PROTOTYPE) dps \<Longrightarrow>
   applyConfig \<lparr>patterns = Some \<lparr>pat_add = None, pat_remove = None, pat_override = Some [(X, v)]\<rparr>,
                paths = None\<rparr> dps dpaths = (map pattern_object dps, map path_object dpaths)"
  "Y \<notin> path ` set dpaths \<Longrightarrow> list_all (\<lambda>p. path p \<notin> set OBJECT_PROTOTYPE) dpaths \<Longrightarrow>
   applyConfig \<lparr>patterns = None,
                paths = Some \<lparr>path_add = None, path_remove = None, path_override = Some [(Y, w)]\<rparr>\<rparr>
     dps dpaths = (map pattern_object dps, map path_object dpaths)"
proof -
  assume a: "X \<notin> reason ` set dps" "list_all (\<lambda>p. reason p \<notin> set OBJECT_PROTOTYPE) dps"
  let ?c = "\<lparr>patterns = Some \<lparr>pat_add = None, pat_remove = None, pat_override = Some [(X, v)]\<rparr>,
             paths = None\<rparr>"
  have "fst (applyConfig ?c dps dpaths) = map pattern_object dps"
    using applyConfig_patterns_spec[OF a(2), of ?c dpaths] spec_absent_override(1)[OF a(1), of v]
    by simp
  moreover have "snd (applyConfig ?c dps dpaths) = map path_object dpaths"
    by (simp add: applyConfig_def Let_def)
  ultimately show "applyConfig ?c dps dpaths = (map pattern_object dps, map path_object dpaths)"
    by (metis prod.collapse)
next
  assume a: "Y \<notin> path ` set dpaths" "list_all (\<lambda>p. path p \<notin> set OBJECT_PROTOTYPE) dpaths"
  let ?c = "\<lparr>patterns = None,
             paths = Some \<lparr>path_add = None, path_remove = None, path_override = Some [(Y, w)]\<rparr>\<rparr>"
  have "snd (applyConfig ?c dps dpaths) = map path_object dpaths"
    using applyConfig_paths_spec[OF a(2), of ?c dps] spec_absent_override(2)[OF a(1), of w]
    by simp
  moreover have "fst (applyConfig ?c dps dpaths) = map pattern_object dps"
    by (simp add: applyConfig_def Let_def)
  ultimately show "applyConfig ?c dps dpaths = (map pattern_object dps, map path_object dpaths)"
    by (metis prod.collapse)
qed

text \<open>
  Claim C6. \<^verbatim>\<open>applyConfig\<close> treats patterns and paths each in the order remove,
  override, add, and on defaults whose keys are not names of \<^verbatim>\<open>Object.prototype\<close>
  (the built-in tables are such) it computes what the specification describes: the
  lemmas above. A key that is removed stays removed, and removing a key that no default
  has changes nothing, on all defaults. The claim has more: overriding a key that no
  default has is to change nothing, for every list of defaults. The code does not meet
  this. It reads the override with \<^verbatim>\<open>pc.override[p.reason]\<close>, which also finds what the
  record inherits; for a default pattern with the reason \<^verbatim>\<open>constructor\<close> and the
  override of another key X the read returns the function \<^verbatim>\<open>Object\<close>, which is not
  \<^verbatim>\<open>undefined\<close>, and the pattern comes back with that function as its action. In
  the same way a default path \<^verbatim>\<open>toString\<close> comes back with a function as its level
  when some other path is overridden.
\<close>

theorem C6_inherited_member_overrides:
  "''X'' \<notin> reason ` set [\<lparr>pattern = ''rm'', reason = ''constructor'', action = block\<rparr>]
   \<and> applyConfig
        \<lparr>patterns = Some \<lparr>pat_add = None, pat_remove = None, pat_override = Some [(''X'', ask)]\<rparr>,
         paths = None\<rparr>
        [\<lparr>pattern = ''rm'', reason = ''constructor'', action = block\<rparr>] []
      = ([\<lparr>pattern_of = ''rm'', reason_of = ''constructor'',
           action_of = Inherited ''constructor''\<rparr>], [])
   \<and> spec_apply_patterns
        (Some \<lparr>pat_add = None, pat_remove = None, pat_override = Some [(''X'', ask)]\<rparr>)
        [\<lparr>pattern = ''rm'', reason = ''constructor'', action = block\<rparr>]
      = [\<lparr>pattern = ''rm'', reason = ''constructor'', action = block\<rparr>]
   \<and> ''Y'' \<notin> path ` set [\<lparr>path = ''toString'', level = readOnly\<rparr>]
   \<and> applyConfig
        \<lparr>patterns = None,
         paths = Some \<lparr>path_add = None, path_remove = None,
                       path_override = Some [(''Y'', none)]\<rparr>\<rparr>
        [] [\<lparr>path = ''toString'', level = readOnly\<rparr>]
      = ([], [\<lparr>path_of = ''toString'', level_of = Inherited ''toString''\<rparr>])
   \<and> spec_apply_paths
        (Some \<lparr>path_add = None, path_remove = None, path_override = Some [(''Y'', none)]\<rparr>)
        [\<lparr>path = ''toString'', level = readOnly\<rparr>]
      = [\<lparr>path = ''toString'', level = readOnly\<rparr>]"
  by (simp add: applyConfig_def spec_apply_patterns_def spec_apply_paths_def field_or_empty_def
        read_member_def OBJECT_PROTOTYPE_def pattern_object_def path_object_def)

section \<open>Merging the global and the project overlay\<close>

text \<open>
  The object spread \<^verbatim>\<open>{...a, ...b}\<close> read as a map: the keys of the second object take
  their values from it, the other keys from the first.
\<close>

lemma map_of_assign: "map_of (assign k v al) = (map_of al)(k \<mapsto> v)"
  by (induction al) (auto simp: fun_eq_iff)

lemma map_of_spread:
  "distinct (map fst b) \<Longrightarrow> map_of (spread a b) = map_of a ++ map_of b"
  unfolding spread_def
proof (induction b arbitrary: a)
  case Nil
  then show ?case by simp
next
  case (Cons e b)
  obtain k v where e: "e = (k, v)" by (cases e)
  from Cons.prems e have k: "k \<notin> fst ` set b" and d: "distinct (map fst b)" by auto
  from k have n: "map_of b k = None" by (simp add: map_of_eq_None_iff)
  have "map_of (foldl (\<lambda>acc (k, v). assign k v acc) (assign k v a) b)
          = map_of (assign k v a) ++ map_of b"
    by (rule Cons.IH[OF d])
  also have "\<dots> = map_of a ++ map_of ((k, v) # b)"
    using n by (auto simp: fun_eq_iff map_add_def map_of_assign split: option.splits)
  finally show ?case using e
    by (auto simp: fun_eq_iff map_add_def split: option.splits)
qed

lemma field_non_empty: "(case non_empty xs of None \<Rightarrow> [] | Some ys \<Rightarrow> ys) = xs"
  by (simp add: non_empty_def)

lemma merge_fields:
  "field_or_empty pat_add (patterns (mergeConfigs g p))
     = field_or_empty pat_add (patterns g) @ field_or_empty pat_add (patterns p)"
  "field_or_empty pat_remove (patterns (mergeConfigs g p))
     = field_or_empty pat_remove (patterns g) @ field_or_empty pat_remove (patterns p)"
  "field_or_empty pat_override (patterns (mergeConfigs g p))
     = spread (field_or_empty pat_override (patterns g)) (field_or_empty pat_override (patterns p))"
  "field_or_empty path_add (paths (mergeConfigs g p))
     = field_or_empty path_add (paths g) @ field_or_empty path_add (paths p)"
  "field_or_empty path_remove (paths (mergeConfigs g p))
     = field_or_empty path_remove (paths g) @ field_or_empty path_remove (paths p)"
  "field_or_empty path_override (paths (mergeConfigs g p))
     = spread (field_or_empty path_override (paths g)) (field_or_empty path_override (paths p))"
  by (auto simp: mergeConfigs_def Let_def field_or_empty_def non_empty_def spread_def
           split: option.splits)

text \<open>
  Claim C7. \<^verbatim>\<open>mergeConfigs\<close> concatenates the add lists and the remove lists of the two
  overlays, the global entries before the project entries, and merges the override maps
  key by key, the project value standing where both overlays have the key (the keys of an
  object are distinct). So when the global overlay overrides X with \<^verbatim>\<open>ask\<close> and the
  project overlay overrides X with \<^verbatim>\<open>block\<close>, the merged override of X is \<^verbatim>\<open>block\<close>.
\<close>

theorem C7_merge_precedence:
  "field_or_empty pat_add (patterns (mergeConfigs g p))
     = field_or_empty pat_add (patterns g) @ field_or_empty pat_add (patterns p)
   \<and> field_or_empty pat_remove (patterns (mergeConfigs g p))
     = field_or_empty pat_remove (patterns g) @ field_or_empty pat_remove (patterns p)
   \<and> field_or_empty path_add (paths (mergeConfigs g p))
     = field_or_empty path_add (paths g) @ field_or_empty path_add (paths p)
   \<and> field_or_empty path_remove (paths (mergeConfigs g p))
     = field_or_empty path_remove (paths g) @ field_or_empty path_remove (paths p)
   \<and> (distinct (map fst (field_or_empty pat_override (patterns p))) \<longrightarrow>
        map_of (field_or_empty pat_override (patterns (mergeConfigs g p)))
          = map_of (field_or_empty pat_override (patterns g))
            ++ map_of (field_or_empty pat_override (patterns p)))
   \<and> (distinct (map fst (field_or_empty path_override (paths p))) \<longrightarrow>
        map_of (field_or_empty path_override (paths (mergeConfigs g p)))
          = map_of (field_or_empty path_override (paths g))
            ++ map_of (field_or_empty path_override (paths p)))
   \<and> map_of (field_or_empty pat_override (patterns (mergeConfigs
         \<lparr>patterns = Some \<lparr>pat_add = None, pat_remove = None, pat_override = Some [(X, ask)]\<rparr>,
          paths = None\<rparr>
         \<lparr>patterns = Some \<lparr>pat_add = None, pat_remove = None, pat_override = Some [(X, block)]\<rparr>,
          paths = None\<rparr>))) X = Some block"
  by (simp add: merge_fields map_of_spread) (simp add: field_or_empty_def spread_def)

text \<open>Two overlays that share one pattern key and one path key.\<close>

theorem C7_merge_precedence_witness:
  "distinct (map fst (field_or_empty pat_override
       (patterns \<lparr>patterns = Some \<lparr>pat_add = None, pat_remove = None,
                                   pat_override = Some [(''A'', block)]\<rparr>,
                  paths = Some \<lparr>path_add = None, path_remove = None,
                                path_override = Some [(''dist/'', none)]\<rparr>\<rparr>)))
   \<and> map_of (field_or_empty pat_override (patterns (mergeConfigs
         \<lparr>patterns = Some \<lparr>pat_add = None, pat_remove = None,
                            pat_override = Some [(''A'', ask), (''B'', ask)]\<rparr>,
          paths = Some \<lparr>path_add = None, path_remove = None,
                        path_override = Some [(''dist/'', Level noDelete), (''~/.ssh'', none)]\<rparr>\<rparr>
         \<lparr>patterns = Some \<lparr>pat_add = None, pat_remove = None,
                            pat_override = Some [(''A'', block)]\<rparr>,
          paths = Some \<lparr>path_add = None, path_remove = None,
                        path_override = Some [(''dist/'', none)]\<rparr>\<rparr>)))
      = [''A'' \<mapsto> ask, ''B'' \<mapsto> ask] ++ [''A'' \<mapsto> block]
   \<and> distinct (map fst (field_or_empty path_override
       (paths \<lparr>patterns = Some \<lparr>pat_add = None, pat_remove = None,
                                pat_override = Some [(''A'', block)]\<rparr>,
               paths = Some \<lparr>path_add = None, path_remove = None,
                             path_override = Some [(''dist/'', none)]\<rparr>\<rparr>)))
   \<and> map_of (field_or_empty path_override (paths (mergeConfigs
         \<lparr>patterns = Some \<lparr>pat_add = None, pat_remove = None,
                            pat_override = Some [(''A'', ask), (''B'', ask)]\<rparr>,
          paths = Some \<lparr>path_add = None, path_remove = None,
                        path_override = Some [(''dist/'', Level noDelete), (''~/.ssh'', none)]\<rparr>\<rparr>
         \<lparr>patterns = Some \<lparr>pat_add = None, pat_remove = None,
                            pat_override = Some [(''A'', block)]\<rparr>,
          paths = Some \<lparr>path_add = None, path_remove = None,
                        path_override = Some [(''dist/'', none)]\<rparr>\<rparr>)))
      = [''dist/'' \<mapsto> Level noDelete, ''~/.ssh'' \<mapsto> none] ++ [''dist/'' \<mapsto> none]"
  using C7_merge_precedence[where
      g = "\<lparr>patterns = Some \<lparr>pat_add = None, pat_remove = None,
                               pat_override = Some [(''A'', ask), (''B'', ask)]\<rparr>,
             paths = Some \<lparr>path_add = None, path_remove = None,
                           path_override = Some [(''dist/'', Level noDelete), (''~/.ssh'', none)]\<rparr>\<rparr>"
      and p = "\<lparr>patterns = Some \<lparr>pat_add = None, pat_remove = None,
                               pat_override = Some [(''A'', block)]\<rparr>,
             paths = Some \<lparr>path_add = None, path_remove = None,
                           path_override = Some [(''dist/'', none)]\<rparr>\<rparr>"]
  by (simp add: field_or_empty_def)

section \<open>Validating a parsed configuration\<close>

text \<open>
  What \<^verbatim>\<open>validateConfig\<close> returns on a value that is no object, on the overlay of the
  specification with an action that does not exist, and on an object with one more key
  that it does not know.
\<close>

lemma validateConfig_non_object:
  "\<not> isObject raw \<Longrightarrow>
   validateConfig raw source
     = Inr (\<lparr>patterns = None, paths = None\<rparr>, [source @ '': config is not an object, ignoring''])"
  by (simp add: validateConfig_def)

lemma stringify_X: \<open>JSON_stringify ''X'' = ''"X"''\<close>
  by code_simp

lemma validateConfig_invalid_action:
  \<open>validateConfig
      (JObj [(''patterns'', JObj [(''override'', JObj [(''X'', JStr ''not-a-real-action'')])])])
      source
    = Inr (\<lparr>patterns = Some \<lparr>pat_add = None, pat_remove = None, pat_override = None\<rparr>,
            paths = None\<rparr>,
           [source @ '': "patterns.override["X"]" has invalid action "not-a-real-action", skipping''])\<close>
  by (simp add: validateConfig_def validate_section_def isObject_def get_prop_def
        VALID_ACTIONS_def non_empty_def unknown_keys_def stringify_X Let_def)

lemma validateConfig_throws:
  "validateConfig
      (JObj [(''patterns'', JObj [(''override'', JObj [(''X'', JObj [(''toString'', JNum ''1'')])])])])
      source
    = Inl TypeError"
  by (simp add: validateConfig_def validate_section_def isObject_def get_prop_def
        VALID_ACTIONS_def non_empty_def unknown_keys_def Let_def)

text \<open>An override under the key \<^verbatim>\<open>__proto__\<close> is accepted and stores nothing.\<close>

lemma validateConfig_proto_key:
  "validateConfig
      (JObj [(''patterns'', JObj [(''override'', JObj [(''__proto__'', JStr ''ask'')])])])
      source
    = Inr (\<lparr>patterns = Some \<lparr>pat_add = None, pat_remove = None, pat_override = None\<rparr>,
            paths = None\<rparr>, [])"
  by (simp add: validateConfig_def validate_section_def isObject_def get_prop_def
        VALID_ACTIONS_def non_empty_def unknown_keys_def Let_def)

lemma includes_append_left: "includes b s \<Longrightarrow> includes (a @ b) s"
  unfolding includes_def sublist_def by (metis append.assoc)

lemma warning_mentions:
  \<open>includes (source @ '': "patterns.override["X"]" has invalid action "not-a-real-action", skipping'')
     ''not-a-real-action''\<close>
proof -
  have \<open>includes '': "patterns.override["X"]" has invalid action "not-a-real-action", skipping''
     ''not-a-real-action''\<close> by code_simp
  then show ?thesis by (rule includes_append_left)
qed

lemma map_of_snoc_other: "x \<noteq> k \<Longrightarrow> map_of (kvs @ [(k, v)]) x = map_of kvs x"
  by (auto simp: map_add_def split: option.splits)

lemma validateConfig_unknown_key:
  assumes "k \<noteq> ''patterns''" "k \<noteq> ''paths''" "k \<noteq> ''$schema''"
  shows \<open>validateConfig (JObj (kvs @ [(k, v)])) source
         = map_sum id (\<lambda>(config, warnings).
                          (config, warnings @ [source @ '': unknown key "'' @ k @ ''", ignoring'']))
             (validateConfig (JObj kvs) source)\<close>
proof -
  have p: "get_prop (JObj (kvs @ [(k, v)])) ''patterns'' = get_prop (JObj kvs) ''patterns''"
    and q: "get_prop (JObj (kvs @ [(k, v)])) ''paths'' = get_prop (JObj kvs) ''paths''"
    using assms by (simp_all add: get_prop_def map_of_snoc_other del: map_of_append)
  have u: \<open>unknown_keys source (JObj (kvs @ [(k, v)]))
           = unknown_keys source (JObj kvs) @ [source @ '': unknown key "'' @ k @ ''", ignoring'']\<close>
    using assms by (simp add: unknown_keys_def)
  show ?thesis
    unfolding validateConfig_def p q u
    by (auto simp: isObject_def split: sum.splits option.splits prod.splits)
qed

text \<open>
  Claim C8. \<^verbatim>\<open>validateConfig\<close> is to return a config and warnings on every parsed value.
  On the parsed text \<^verbatim>\<open>{"patterns":{"override":{"X":{"toString":1}}}}\<close> it throws: the
  value of X is no valid action, the warning is built with the template
  \<^verbatim>\<open>has invalid action "${val}"\<close>, and the conversion of the object
  \<^verbatim>\<open>{"toString":1}\<close> to a string is a TypeError. The other parts of the claim hold
  (lemmas \<^verbatim>\<open>validateConfig_non_object\<close>, \<^verbatim>\<open>validateConfig_unknown_key\<close>,
  \<^verbatim>\<open>validateConfig_invalid_action\<close>, \<^verbatim>\<open>warning_mentions\<close>).
\<close>

theorem C8_validateConfig_throws:
  "toString (JObj [(''toString'', JNum ''1'')]) = Inl TypeError
   \<and> validateConfig
        (JObj [(''patterns'',
                JObj [(''override'', JObj [(''X'', JObj [(''toString'', JNum ''1'')])])])])
        source
      = Inl TypeError"
  using validateConfig_throws[of source] by simp

section \<open>The overlay on a store\<close>

text \<open>
  Reading arrays and objects from a store, and what a longer store keeps.
\<close>

lemma array_at_bound: "array_at h a = Some xs \<Longrightarrow> a < length h"
  by (auto simp: array_at_def split: if_splits)

lemma array_at_alloc: "array_at (h @ [Array xs]) (length h) = Some xs"
  by (simp add: array_at_def)

lemma prefix_nth: "prefix h h' \<Longrightarrow> a < length h \<Longrightarrow> h' ! a = h ! a"
  by (auto simp: prefix_def nth_append)

lemma prefix_array_at: "prefix h h' \<Longrightarrow> array_at h a = Some xs \<Longrightarrow> array_at h' a = Some xs"
  using prefix_nth[of h h' a] prefix_length_le[of h h']
  by (auto simp: array_at_def split: if_splits)

lemma prefix_pattern_at: "prefix h h' \<Longrightarrow> pattern_at h a = Some p \<Longrightarrow> pattern_at h' a = Some p"
  using prefix_nth[of h h' a] prefix_length_le[of h h']
  by (auto simp: pattern_at_def split: if_splits)

lemma prefix_path_at: "prefix h h' \<Longrightarrow> path_at h a = Some p \<Longrightarrow> path_at h' a = Some p"
  using prefix_nth[of h h' a] prefix_length_le[of h h']
  by (auto simp: path_at_def split: if_splits)

lemma read_patterns_iff:
  "(read_patterns h xs = Some ps) = list_all2 (\<lambda>x p. pattern_at h x = Some p) xs ps"
proof (induction xs arbitrary: ps)
  case Nil
  then show ?case by (auto simp: read_patterns_def)
next
  case (Cons x xs)
  show ?case
  proof (cases ps)
    case Nil
    then show ?thesis by (auto simp: read_patterns_def)
  next
    case (Cons p ps')
    with Cons.IH[of ps'] show ?thesis
      by (auto simp: read_patterns_def split: if_splits)
  qed
qed

lemma read_paths_iff:
  "(read_paths h xs = Some ps) = list_all2 (\<lambda>x p. path_at h x = Some p) xs ps"
proof (induction xs arbitrary: ps)
  case Nil
  then show ?case by (auto simp: read_paths_def)
next
  case (Cons x xs)
  show ?case
  proof (cases ps)
    case Nil
    then show ?thesis by (auto simp: read_paths_def)
  next
    case (Cons p ps')
    with Cons.IH[of ps'] show ?thesis
      by (auto simp: read_paths_def split: if_splits)
  qed
qed

lemma prefix_read_patterns:
  "prefix h h' \<Longrightarrow> read_patterns h xs = Some ps \<Longrightarrow> read_patterns h' xs = Some ps"
  unfolding read_patterns_iff by (erule list_all2_mono) (rule prefix_pattern_at)

lemma prefix_read_paths:
  "prefix h h' \<Longrightarrow> read_paths h xs = Some ps \<Longrightarrow> read_paths h' xs = Some ps"
  unfolding read_paths_iff by (erule list_all2_mono) (rule prefix_path_at)

lemma prefix_patterns_at:
  assumes "prefix h h'" and "patterns_at h a = Some ps"
  shows "patterns_at h' a = Some ps"
proof -
  from assms(2) obtain xs where "array_at h a = Some xs" "read_patterns h xs = Some ps"
    by (auto simp: patterns_at_def split: option.splits)
  with assms(1) have "array_at h' a = Some xs" "read_patterns h' xs = Some ps"
    by (auto dest: prefix_array_at prefix_read_patterns)
  then show ?thesis by (simp add: patterns_at_def)
qed

lemma prefix_paths_at:
  assumes "prefix h h'" and "paths_at h a = Some ps"
  shows "paths_at h' a = Some ps"
proof -
  from assms(2) obtain xs where "array_at h a = Some xs" "read_paths h xs = Some ps"
    by (auto simp: paths_at_def split: option.splits)
  with assms(1) have "array_at h' a = Some xs" "read_paths h' xs = Some ps"
    by (auto dest: prefix_array_at prefix_read_paths)
  then show ?thesis by (simp add: paths_at_def)
qed

lemma filter_patternsS_reads:
  "list_all2 (\<lambda>x p. pattern_at h x = Some p) xs ps \<Longrightarrow>
   \<exists>zs. filter_patternsS h rm xs = Some zs
        \<and> list_all2 (\<lambda>x p. pattern_at h x = Some p) zs (filter (\<lambda>p. reason_of p \<notin> set rm) ps)"
  by (induction xs ps rule: list_all2_induct) auto

lemma filter_pathsS_reads:
  "list_all2 (\<lambda>x p. path_at h x = Some p) xs ps \<Longrightarrow>
   \<exists>zs. filter_pathsS h rm xs = Some zs
        \<and> list_all2 (\<lambda>x p. path_at h x = Some p) zs (filter (\<lambda>p. path_of p \<notin> set rm) ps)"
  by (induction xs ps rule: list_all2_induct) auto

lemma pattern_at_alloc: "pattern_at (h @ [PatternObj p]) (length h) = Some p"
  by (simp add: pattern_at_def)

lemma map_overrideS_reads:
  "list_all2 (\<lambda>x p. pattern_at h x = Some p) xs ps \<Longrightarrow>
   \<exists>h' ys. map_overrideS h ov xs = Some (h', ys) \<and> prefix h h'
        \<and> list_all2 (\<lambda>x p. pattern_at h' x = Some p) ys
             (map (\<lambda>p. case read_member ov (reason_of p) of
                          Some newAction \<Rightarrow> p\<lparr>action_of := newAction\<rparr>
                        | None \<Rightarrow> p) ps)"
proof (induction xs arbitrary: h ps)
  case Nil
  then show ?case by simp
next
  case (Cons x xs)
  from Cons.prems obtain p ps' where ps: "ps = p # ps'"
    and xp: "pattern_at h x = Some p"
    and rest: "list_all2 (\<lambda>x p. pattern_at h x = Some p) xs ps'"
    by (auto simp: list_all2_Cons1)
  define h1 where "h1 = (case read_member ov (reason_of p) of
                           Some newAction \<Rightarrow> h @ [PatternObj (p\<lparr>action_of := newAction\<rparr>)]
                         | None \<Rightarrow> h)"
  define b where "b = (case read_member ov (reason_of p) of Some newAction \<Rightarrow> length h | None \<Rightarrow> x)"
  define p' where "p' = (case read_member ov (reason_of p) of
                           Some newAction \<Rightarrow> p\<lparr>action_of := newAction\<rparr> | None \<Rightarrow> p)"
  have step: "(case read_member ov (reason_of p) of
                 Some newAction \<Rightarrow> alloc h (PatternObj (p\<lparr>action_of := newAction\<rparr>))
               | None \<Rightarrow> (h, x)) = (h1, b)"
    by (simp add: h1_def b_def alloc_def split: option.splits)
  have pre: "prefix h h1" by (simp add: h1_def split: option.splits)
  have bp: "pattern_at h1 b = Some p'"
    using xp by (auto simp: h1_def b_def p'_def pattern_at_alloc split: option.splits)
  have "list_all2 (\<lambda>x p. pattern_at h1 x = Some p) xs ps'"
    using rest pre by (auto elim!: list_all2_mono dest: prefix_pattern_at)
  from Cons.IH[OF this] obtain h2 ys where
    r: "map_overrideS h1 ov xs = Some (h2, ys)" and p2: "prefix h1 h2"
    and l: "list_all2 (\<lambda>x p. pattern_at h2 x = Some p) ys
              (map (\<lambda>p. case read_member ov (reason_of p) of
                           Some newAction \<Rightarrow> p\<lparr>action_of := newAction\<rparr> | None \<Rightarrow> p) ps')"
    by blast
  have "map_overrideS h ov (x # xs) = Some (h2, b # ys)"
    using xp step r by simp
  moreover have "prefix h h2" using pre p2 by (rule prefix_order.trans)
  moreover have "pattern_at h2 b = Some p'" using p2 bp by (rule prefix_pattern_at)
  ultimately show ?case using l ps by (auto simp: p'_def)
qed

lemma patterns_at_alloc:
  assumes "read_patterns h zs = Some ps"
  shows "patterns_at (h @ [Array zs]) (length h) = Some ps"
proof -
  have "prefix h (h @ [Array zs])" by simp
  from prefix_read_patterns[OF this assms] show ?thesis
    by (simp add: patterns_at_def array_at_alloc)
qed

lemma paths_at_alloc:
  assumes "read_paths h zs = Some ps"
  shows "paths_at (h @ [Array zs]) (length h) = Some ps"
proof -
  have "prefix h (h @ [Array zs])" by simp
  from prefix_read_paths[OF this assms] show ?thesis
    by (simp add: paths_at_def array_at_alloc)
qed

lemma patterns_at_bound: "patterns_at h a = Some ps \<Longrightarrow> a < length h"
  by (auto simp: patterns_at_def split: option.splits dest: array_at_bound)

lemma paths_at_bound: "paths_at h a = Some ps \<Longrightarrow> a < length h"
  by (auto simp: paths_at_def split: option.splits dest: array_at_bound)

lemma remove_patternsS_reads:
  assumes "patterns_at h cur = Some ps"
  shows "\<exists>h1 c1. remove_patternsS h rm cur = Some (h1, c1) \<and> prefix h h1
           \<and> (c1 = cur \<or> length h \<le> c1) \<and> c1 < length h1
           \<and> patterns_at h1 c1
               = Some (case rm of None \<Rightarrow> ps
                       | Some removeSet \<Rightarrow> filter (\<lambda>p. reason_of p \<notin> set removeSet) ps)"
proof (cases rm)
  case None
  with assms show ?thesis by (auto simp: remove_patternsS_def dest: patterns_at_bound)
next
  case (Some removeSet)
  from assms obtain xs where xs: "array_at h cur = Some xs" and r: "read_patterns h xs = Some ps"
    by (auto simp: patterns_at_def split: option.splits)
  from r obtain zs where z: "filter_patternsS h removeSet xs = Some zs"
    and zr: "read_patterns h zs = Some (filter (\<lambda>p. reason_of p \<notin> set removeSet) ps)"
    using filter_patternsS_reads[of h xs ps removeSet] by (auto simp: read_patterns_iff)
  from xs z have "remove_patternsS h rm cur = Some (h @ [Array zs], length h)"
    by (simp add: remove_patternsS_def Some alloc_def)
  with zr Some show ?thesis by (auto simp: patterns_at_alloc)
qed

lemma override_patternsS_reads:
  assumes "patterns_at h cur = Some ps"
  shows "\<exists>h1 c1. override_patternsS h ov cur = Some (h1, c1) \<and> prefix h h1
           \<and> (c1 = cur \<or> length h \<le> c1) \<and> c1 < length h1
           \<and> patterns_at h1 c1
               = Some (case ov of None \<Rightarrow> ps
                       | Some ov' \<Rightarrow>
                           map (\<lambda>p. case read_member ov' (reason_of p) of
                                       Some newAction \<Rightarrow> p\<lparr>action_of := newAction\<rparr>
                                     | None \<Rightarrow> p) ps)"
proof (cases ov)
  case None
  with assms show ?thesis by (auto simp: override_patternsS_def dest: patterns_at_bound)
next
  case (Some ov')
  from assms obtain xs where xs: "array_at h cur = Some xs" and r: "read_patterns h xs = Some ps"
    by (auto simp: patterns_at_def split: option.splits)
  from r obtain h' ys where m: "map_overrideS h ov' xs = Some (h', ys)" and p: "prefix h h'"
    and yr: "read_patterns h' ys
               = Some (map (\<lambda>p. case read_member ov' (reason_of p) of
                                   Some newAction \<Rightarrow> p\<lparr>action_of := newAction\<rparr>
                                 | None \<Rightarrow> p) ps)"
    using map_overrideS_reads[of h xs ps ov'] by (auto simp: read_patterns_iff)
  from xs m have "override_patternsS h ov cur = Some (h' @ [Array ys], length h')"
    by (simp add: override_patternsS_def Some alloc_def)
  moreover have "prefix h (h' @ [Array ys])" using p by (simp add: prefix_prefix)
  moreover have "length h \<le> length h'" using p by (rule prefix_length_le)
  ultimately show ?thesis using yr Some by (auto simp: patterns_at_alloc)
qed

lemma add_rulesS_none: "add_rulesS h None cur = Some (h, cur)"
  by (simp add: add_rulesS_def)

lemma add_rulesS_patterns:
  assumes "patterns_at h cur = Some ps" and "patterns_at h a = Some adds"
  shows "add_rulesS h (Some a) cur = Some (h @ [Array (the (array_at h cur) @ the (array_at h a))], length h)
         \<and> patterns_at (h @ [Array (the (array_at h cur) @ the (array_at h a))]) (length h)
             = Some (ps @ adds)"
proof -
  from assms obtain xs ys where xs: "array_at h cur = Some xs" "read_patterns h xs = Some ps"
    and ys: "array_at h a = Some ys" "read_patterns h ys = Some adds"
    by (auto simp: patterns_at_def split: option.splits)
  then have "read_patterns h (xs @ ys) = Some (ps @ adds)"
    by (auto simp: read_patterns_iff intro: list_all2_appendI)
  with xs ys show ?thesis
    by (simp add: add_rulesS_def alloc_def patterns_at_alloc)
qed

lemma add_rulesS_paths:
  assumes "paths_at h cur = Some ps" and "paths_at h a = Some adds"
  shows "add_rulesS h (Some a) cur = Some (h @ [Array (the (array_at h cur) @ the (array_at h a))], length h)
         \<and> paths_at (h @ [Array (the (array_at h cur) @ the (array_at h a))]) (length h)
             = Some (ps @ adds)"
proof -
  from assms obtain xs ys where xs: "array_at h cur = Some xs" "read_paths h xs = Some ps"
    and ys: "array_at h a = Some ys" "read_paths h ys = Some adds"
    by (auto simp: paths_at_def split: option.splits)
  then have "read_paths h (xs @ ys) = Some (ps @ adds)"
    by (auto simp: read_paths_iff intro: list_all2_appendI)
  with xs ys show ?thesis
    by (simp add: add_rulesS_def alloc_def paths_at_alloc)
qed

lemma applyPatternsS_reads:
  assumes dps: "patterns_at h dp = Some dps"
    and adds: "case pc of None \<Rightarrow> True
               | Some c \<Rightarrow> (case pat_addS c of None \<Rightarrow> True
                            | Some a \<Rightarrow> patterns_at h a = Some ad)"
  shows "\<exists>h' r. applyPatternsS h pc dp = Some (h', r) \<and> prefix h h'
           \<and> length h \<le> r \<and> r < length h'
           \<and> patterns_at h' r
               = Some (case pc of
                         None \<Rightarrow> dps
                       | Some c \<Rightarrow>
                           (let patterns1 =
                                  (case pat_removeS c of
                                     None \<Rightarrow> dps
                                   | Some removeSet \<Rightarrow>
                                       filter (\<lambda>p. reason_of p \<notin> set removeSet) dps);
                                patterns2 =
                                  (case pat_overrideS c of
                                     None \<Rightarrow> patterns1
                                   | Some ov \<Rightarrow>
                                       map (\<lambda>p. case read_member ov (reason_of p) of
                                                   Some newAction \<Rightarrow> p\<lparr>action_of := newAction\<rparr>
                                                 | None \<Rightarrow> p) patterns1)
                            in case pat_addS c of None \<Rightarrow> patterns2
                               | Some a \<Rightarrow> patterns2 @ ad))"
proof -
  from dps obtain xs where xs: "array_at h dp = Some xs" and r: "read_patterns h xs = Some dps"
    by (auto simp: patterns_at_def split: option.splits)
  define h0 where "h0 = h @ [Array xs]"
  have p0: "prefix h h0" and a0: "patterns_at h0 (length h) = Some dps"
    and l0: "length h0 = Suc (length h)"
    using r by (simp_all add: h0_def patterns_at_alloc)
  show ?thesis
  proof (cases pc)
    case None
    with xs a0 p0 l0 show ?thesis
      by (auto simp: applyPatternsS_def alloc_def h0_def)
  next
    case (Some c)
    from remove_patternsS_reads[OF a0, of "pat_removeS c"] obtain h1 c1 where
      s1: "remove_patternsS h0 (pat_removeS c) (length h) = Some (h1, c1)"
      and p1: "prefix h0 h1" and f1: "c1 = length h \<or> length h0 \<le> c1" and b1: "c1 < length h1"
      and a1: "patterns_at h1 c1
                 = Some (case pat_removeS c of None \<Rightarrow> dps
                         | Some removeSet \<Rightarrow> filter (\<lambda>p. reason_of p \<notin> set removeSet) dps)"
      by blast
    from override_patternsS_reads[OF a1, of "pat_overrideS c"] obtain h2 c2 where
      s2: "override_patternsS h1 (pat_overrideS c) c1 = Some (h2, c2)"
      and p2: "prefix h1 h2" and f2: "c2 = c1 \<or> length h1 \<le> c2" and b2: "c2 < length h2"
      and a2: "patterns_at h2 c2
                 = Some (case pat_overrideS c of
                           None \<Rightarrow> (case pat_removeS c of None \<Rightarrow> dps
                                     | Some removeSet \<Rightarrow> filter (\<lambda>p. reason_of p \<notin> set removeSet) dps)
                         | Some ov \<Rightarrow>
                             map (\<lambda>p. case read_member ov (reason_of p) of
                                         Some newAction \<Rightarrow> p\<lparr>action_of := newAction\<rparr>
                                       | None \<Rightarrow> p)
                               (case pat_removeS c of None \<Rightarrow> dps
                                | Some removeSet \<Rightarrow> filter (\<lambda>p. reason_of p \<notin> set removeSet) dps))"
      by blast
    have p02: "prefix h h2" using p0 p1 p2 by (meson prefix_order.trans)
    have le: "length h0 \<le> length h1" "length h1 \<le> length h2"
      using p1 p2 by (auto dest: prefix_length_le)
    have c2lo: "length h \<le> c2" using f1 f2 le l0 by auto
    show ?thesis
    proof (cases "pat_addS c")
      case None
      with Some xs s1 s2 a2 p02 c2lo b2 show ?thesis
        by (auto simp: applyPatternsS_def alloc_def h0_def add_rulesS_none Let_def)
    next
      case (Some a)
      with adds \<open>pc = Some c\<close> have "patterns_at h a = Some ad" by simp
      with p02 have "patterns_at h2 a = Some ad" by (rule prefix_patterns_at)
      from add_rulesS_patterns[OF a2 this] obtain h3 where
        s3: "add_rulesS h2 (Some a) c2 = Some (h3, length h2)"
        and p3: "prefix h2 h3" and l3: "length h3 = Suc (length h2)"
        and a3: "patterns_at h3 (length h2)
                   = Some ((case pat_overrideS c of
                              None \<Rightarrow> (case pat_removeS c of None \<Rightarrow> dps
                                        | Some removeSet \<Rightarrow> filter (\<lambda>p. reason_of p \<notin> set removeSet) dps)
                            | Some ov \<Rightarrow>
                                map (\<lambda>p. case read_member ov (reason_of p) of
                                            Some newAction \<Rightarrow> p\<lparr>action_of := newAction\<rparr>
                                          | None \<Rightarrow> p)
                                  (case pat_removeS c of None \<Rightarrow> dps
                                   | Some removeSet \<Rightarrow> filter (\<lambda>p. reason_of p \<notin> set removeSet) dps))
                           @ ad)"
        by auto
      have "prefix h h3" using p02 p3 by (rule prefix_order.trans)
      moreover have "length h \<le> length h2" using p02 by (rule prefix_length_le)
      ultimately show ?thesis
        using Some \<open>pc = Some c\<close> xs s1 s2 s3 a3 l3
        by (auto simp: applyPatternsS_def alloc_def h0_def Let_def)
    qed
  qed
qed

lemma path_at_update:
  "array_at h out = Some acc \<Longrightarrow> path_at (h[out := Array ys]) a = path_at h a"
  by (cases "a = out") (auto simp: path_at_def array_at_def split: if_splits cell.splits)

lemma array_at_update: "out < length h \<Longrightarrow> array_at (h[out := Array ys]) out = Some ys"
  by (simp add: array_at_def)

lemma array_push_reads:
  "array_at h out = Some acc \<Longrightarrow> array_push h out x = Some (h[out := Array (acc @ [x])])"
  by (simp add: array_push_def)

lemma path_at_alloc: "path_at (h @ [PathObj p]) (length h) = Some p"
  by (simp add: path_at_def)

lemma override_pathsS_reads:
  assumes "list_all2 (\<lambda>x p. path_at h x = Some p) xs ps"
    and "array_at h out = Some acc"
    and "list_all2 (\<lambda>x p. path_at h x = Some p) acc qs"
  shows "\<exists>h' acc'. override_pathsS h ov out xs = Some h' \<and> array_at h' out = Some acc'
           \<and> list_all2 (\<lambda>x p. path_at h' x = Some p) acc' (override_paths ov qs ps)
           \<and> length h \<le> length h' \<and> (\<forall>a<length h. a \<noteq> out \<longrightarrow> h' ! a = h ! a)"
  using assms
proof (induction xs arbitrary: h ps acc qs)
  case Nil
  then show ?case by auto
next
  case (Cons x xs)
  from Cons.prems(1) obtain p ps' where ps: "ps = p # ps'"
    and xp: "path_at h x = Some p"
    and rest: "list_all2 (\<lambda>x p. path_at h x = Some p) xs ps'"
    by (auto simp: list_all2_Cons1)
  have ob: "out < length h" using Cons.prems(2) by (rule array_at_bound)
  have pushed:
    "\<exists>h' acc'. Option.bind (array_push (h @ [PathObj p']) out (length h))
                  (\<lambda>h2. override_pathsS h2 ov out xs) = Some h'
        \<and> array_at h' out = Some acc'
        \<and> list_all2 (\<lambda>x p. path_at h' x = Some p) acc' (override_paths ov (qs @ [p']) ps')
        \<and> length h \<le> length h' \<and> (\<forall>a<length h. a \<noteq> out \<longrightarrow> h' ! a = h ! a)" for p'
  proof -
    define h1 where "h1 = h @ [PathObj p']"
    define h2 where "h2 = h1[out := Array (acc @ [length h])]"
    have pre: "prefix h h1" by (simp add: h1_def)
    have o1: "array_at h1 out = Some acc" using pre Cons.prems(2) by (rule prefix_array_at)
    have same: "\<And>a. path_at h2 a = path_at h1 a"
      unfolding h2_def using o1 by (rule path_at_update)
    have keep: "\<And>a q. path_at h a = Some q \<Longrightarrow> path_at h2 a = Some q"
      using pre by (simp add: same prefix_path_at)
    have new: "path_at h2 (length h) = Some p'" by (simp add: same h1_def path_at_alloc)
    have 1: "list_all2 (\<lambda>x p. path_at h2 x = Some p) xs ps'"
      using rest by (rule list_all2_mono) (rule keep)
    have 2: "array_at h2 out = Some (acc @ [length h])"
      unfolding h2_def using ob by (intro array_at_update) (simp add: h1_def)
    have "list_all2 (\<lambda>x p. path_at h2 x = Some p) acc qs"
      using Cons.prems(3) by (rule list_all2_mono) (rule keep)
    then have 3: "list_all2 (\<lambda>x p. path_at h2 x = Some p) (acc @ [length h]) (qs @ [p'])"
      using new by (auto intro: list_all2_appendI)
    from Cons.IH[OF 1 2 3] obtain h' acc' where
      r: "override_pathsS h2 ov out xs = Some h'" and a: "array_at h' out = Some acc'"
      and l: "list_all2 (\<lambda>x p. path_at h' x = Some p) acc' (override_paths ov (qs @ [p']) ps')"
      and n: "length h2 \<le> length h'" and k: "\<forall>a<length h2. a \<noteq> out \<longrightarrow> h' ! a = h2 ! a"
      by blast
    have "array_push h1 out (length h) = Some h2"
      using array_push_reads[OF o1, of "length h"] by (simp add: h2_def)
    then have "Option.bind (array_push (h @ [PathObj p']) out (length h))
                 (\<lambda>h2. override_pathsS h2 ov out xs) = Some h'"
      using r by (simp add: h1_def)
    moreover have "length h \<le> length h'" using n by (simp add: h2_def h1_def)
    moreover have "\<forall>a<length h. a \<noteq> out \<longrightarrow> h' ! a = h ! a"
      using k by (auto simp: h2_def h1_def nth_append)
    ultimately show ?thesis using a l by blast
  qed
  show ?case
  proof (cases "read_member ov (path_of p)")
    case None
    define h1 where "h1 = h[out := Array (acc @ [x])]"
    have same: "\<And>a. path_at h1 a = path_at h a"
      unfolding h1_def using Cons.prems(2) by (rule path_at_update)
    have 1: "list_all2 (\<lambda>x p. path_at h1 x = Some p) xs ps'" using rest by (simp add: same)
    have 2: "array_at h1 out = Some (acc @ [x])" unfolding h1_def using ob by (rule array_at_update)
    have 3: "list_all2 (\<lambda>x p. path_at h1 x = Some p) (acc @ [x]) (qs @ [p])"
      using Cons.prems(3) xp by (auto simp: same intro: list_all2_appendI)
    from Cons.IH[OF 1 2 3] obtain h' acc' where
      r: "override_pathsS h1 ov out xs = Some h'" and a: "array_at h' out = Some acc'"
      and l: "list_all2 (\<lambda>x p. path_at h' x = Some p) acc' (override_paths ov (qs @ [p]) ps')"
      and n: "length h1 \<le> length h'" and k: "\<forall>a<length h1. a \<noteq> out \<longrightarrow> h' ! a = h1 ! a"
      by blast
    have "override_pathsS h ov out (x # xs) = Some h'"
      using xp None r array_push_reads[OF Cons.prems(2), of x] by (simp add: h1_def)
    moreover have "length h \<le> length h'" using n by (simp add: h1_def)
    moreover have "\<forall>a<length h. a \<noteq> out \<longrightarrow> h' ! a = h ! a" using k by (simp add: h1_def)
    ultimately show ?thesis using a l None ps by auto
  next
    case (Some v)
    show ?thesis
    proof (cases v)
      case (Inherited key)
      from pushed[of "p\<lparr>level_of := Inherited key\<rparr>"] obtain h' acc' where
        r: "Option.bind (array_push (h @ [PathObj (p\<lparr>level_of := Inherited key\<rparr>)]) out (length h))
              (\<lambda>h2. override_pathsS h2 ov out xs) = Some h'"
        and a: "array_at h' out = Some acc'"
        and l: "list_all2 (\<lambda>x p. path_at h' x = Some p) acc'
                  (override_paths ov (qs @ [p\<lparr>level_of := Inherited key\<rparr>]) ps')"
        and n: "length h \<le> length h'" and k: "\<forall>a<length h. a \<noteq> out \<longrightarrow> h' ! a = h ! a"
        by blast
      have "override_pathsS h ov out (x # xs) = Some h'"
        using xp Some Inherited r by (simp add: alloc_def)
      then show ?thesis using a l n k Some Inherited ps by auto
    next
      case (Own lv)
      show ?thesis
      proof (cases lv)
        case none
        from Cons.IH[OF rest Cons.prems(2) Cons.prems(3)] obtain h' acc' where
          r: "override_pathsS h ov out xs = Some h'" and a: "array_at h' out = Some acc'"
          and l: "list_all2 (\<lambda>x p. path_at h' x = Some p) acc' (override_paths ov qs ps')"
          and n: "length h \<le> length h'" and k: "\<forall>a<length h. a \<noteq> out \<longrightarrow> h' ! a = h ! a"
          by blast
        have "override_pathsS h ov out (x # xs) = Some h'" using xp Some Own none r by simp
        then show ?thesis using a l n k Some Own none ps by auto
      next
        case (Level newLevel)
        from pushed[of "p\<lparr>level_of := Own newLevel\<rparr>"] obtain h' acc' where
          r: "Option.bind (array_push (h @ [PathObj (p\<lparr>level_of := Own newLevel\<rparr>)]) out (length h))
                (\<lambda>h2. override_pathsS h2 ov out xs) = Some h'"
          and a: "array_at h' out = Some acc'"
          and l: "list_all2 (\<lambda>x p. path_at h' x = Some p) acc'
                    (override_paths ov (qs @ [p\<lparr>level_of := Own newLevel\<rparr>]) ps')"
          and n: "length h \<le> length h'" and k: "\<forall>a<length h. a \<noteq> out \<longrightarrow> h' ! a = h ! a"
          by blast
        have "override_pathsS h ov out (x # xs) = Some h'"
          using xp Some Own Level r by (simp add: alloc_def)
        then show ?thesis using a l n k Some Own Level ps by auto
      qed
    qed
  qed
qed

lemma prefix_by_cells:
  "length h \<le> length h' \<Longrightarrow> (\<And>a. a < length h \<Longrightarrow> h' ! a = h ! a) \<Longrightarrow> prefix h h'"
proof -
  assume l: "length h \<le> length h'" and c: "\<And>a. a < length h \<Longrightarrow> h' ! a = h ! a"
  have "take (length h) h' = h"
    using l c by (intro nth_equalityI) auto
  then show ?thesis by (metis take_is_prefix)
qed

lemma override_pathsStep_reads:
  assumes "paths_at h cur = Some ps"
  shows "\<exists>h1 c1. override_pathsStep h ov cur = Some (h1, c1) \<and> prefix h h1
           \<and> (c1 = cur \<or> length h \<le> c1) \<and> c1 < length h1
           \<and> paths_at h1 c1
               = Some (case ov of None \<Rightarrow> ps | Some ov' \<Rightarrow> override_paths ov' [] ps)"
proof (cases ov)
  case None
  with assms show ?thesis by (auto simp: override_pathsStep_def dest: paths_at_bound)
next
  case (Some ov')
  from assms obtain xs where xs: "array_at h cur = Some xs" and r: "read_paths h xs = Some ps"
    by (auto simp: paths_at_def split: option.splits)
  define h0 where "h0 = h @ [Array []]"
  have pre: "prefix h h0" by (simp add: h0_def)
  have 1: "list_all2 (\<lambda>x p. path_at h0 x = Some p) xs ps"
    using prefix_read_paths[OF pre r] by (simp add: read_paths_iff)
  have 2: "array_at h0 (length h) = Some []" by (simp add: h0_def array_at_alloc)
  have 3: "list_all2 (\<lambda>x p. path_at h0 x = Some p) [] []" by simp
  from override_pathsS_reads[OF 1 2 3, of ov'] obtain h' acc' where
    s: "override_pathsS h0 ov' (length h) xs = Some h'" and a: "array_at h' (length h) = Some acc'"
    and l: "list_all2 (\<lambda>x p. path_at h' x = Some p) acc' (override_paths ov' [] ps)"
    and n: "length h0 \<le> length h'"
    and k: "\<forall>a<length h0. a \<noteq> length h \<longrightarrow> h' ! a = h0 ! a"
    by blast
  have "override_pathsStep h ov cur = Some (h', length h)"
    using Some xs s by (simp add: override_pathsStep_def alloc_def h0_def)
  moreover have "prefix h h'"
  proof (rule prefix_by_cells)
    show "length h \<le> length h'" using n by (simp add: h0_def)
    fix b assume "b < length h"
    then show "h' ! b = h ! b" using k by (auto simp: h0_def nth_append)
  qed
  moreover have "length h < length h'" using n by (simp add: h0_def)
  moreover have "paths_at h' (length h) = Some (override_paths ov' [] ps)"
    using a l by (simp add: paths_at_def read_paths_iff)
  ultimately show ?thesis using Some by auto
qed

lemma remove_pathsS_reads:
  assumes "paths_at h cur = Some ps"
  shows "\<exists>h1 c1. remove_pathsS h rm cur = Some (h1, c1) \<and> prefix h h1
           \<and> (c1 = cur \<or> length h \<le> c1) \<and> c1 < length h1
           \<and> paths_at h1 c1
               = Some (case rm of None \<Rightarrow> ps
                       | Some removeSet \<Rightarrow> filter (\<lambda>p. path_of p \<notin> set removeSet) ps)"
proof (cases rm)
  case None
  with assms show ?thesis by (auto simp: remove_pathsS_def dest: paths_at_bound)
next
  case (Some removeSet)
  from assms obtain xs where xs: "array_at h cur = Some xs" and r: "read_paths h xs = Some ps"
    by (auto simp: paths_at_def split: option.splits)
  from r obtain zs where z: "filter_pathsS h removeSet xs = Some zs"
    and zr: "read_paths h zs = Some (filter (\<lambda>p. path_of p \<notin> set removeSet) ps)"
    using filter_pathsS_reads[of h xs ps removeSet] by (auto simp: read_paths_iff)
  from xs z have "remove_pathsS h rm cur = Some (h @ [Array zs], length h)"
    by (simp add: remove_pathsS_def Some alloc_def)
  with zr Some show ?thesis by (auto simp: paths_at_alloc)
qed

lemma applyPathsS_reads:
  assumes dps: "paths_at h dp = Some dps"
    and adds: "case pc of None \<Rightarrow> True
               | Some c \<Rightarrow> (case path_addS c of None \<Rightarrow> True
                            | Some a \<Rightarrow> paths_at h a = Some ad)"
  shows "\<exists>h' r. applyPathsS h pc dp = Some (h', r) \<and> prefix h h'
           \<and> length h \<le> r \<and> r < length h'
           \<and> paths_at h' r
               = Some (case pc of
                         None \<Rightarrow> dps
                       | Some c \<Rightarrow>
                           (let paths1 =
                                  (case path_removeS c of
                                     None \<Rightarrow> dps
                                   | Some removeSet \<Rightarrow>
                                       filter (\<lambda>p. path_of p \<notin> set removeSet) dps);
                                paths2 =
                                  (case path_overrideS c of
                                     None \<Rightarrow> paths1
                                   | Some ov \<Rightarrow> override_paths ov [] paths1)
                            in case path_addS c of None \<Rightarrow> paths2
                               | Some a \<Rightarrow> paths2 @ ad))"
proof -
  from dps obtain xs where xs: "array_at h dp = Some xs" and r: "read_paths h xs = Some dps"
    by (auto simp: paths_at_def split: option.splits)
  define h0 where "h0 = h @ [Array xs]"
  have p0: "prefix h h0" and a0: "paths_at h0 (length h) = Some dps"
    and l0: "length h0 = Suc (length h)"
    using r by (simp_all add: h0_def paths_at_alloc)
  show ?thesis
  proof (cases pc)
    case None
    with xs a0 p0 l0 show ?thesis
      by (auto simp: applyPathsS_def alloc_def h0_def)
  next
    case (Some c)
    define q1 where "q1 = (case path_removeS c of None \<Rightarrow> dps
                           | Some removeSet \<Rightarrow> filter (\<lambda>p. path_of p \<notin> set removeSet) dps)"
    define q2 where "q2 = (case path_overrideS c of None \<Rightarrow> q1
                           | Some ov \<Rightarrow> override_paths ov [] q1)"
    from remove_pathsS_reads[OF a0, of "path_removeS c"] obtain h1 c1 where
      s1: "remove_pathsS h0 (path_removeS c) (length h) = Some (h1, c1)"
      and p1: "prefix h0 h1" and f1: "c1 = length h \<or> length h0 \<le> c1" and b1: "c1 < length h1"
      and a1: "paths_at h1 c1 = Some q1"
      unfolding q1_def by blast
    from override_pathsStep_reads[OF a1, of "path_overrideS c"] obtain h2 c2 where
      s2: "override_pathsStep h1 (path_overrideS c) c1 = Some (h2, c2)"
      and p2: "prefix h1 h2" and f2: "c2 = c1 \<or> length h1 \<le> c2" and b2: "c2 < length h2"
      and a2: "paths_at h2 c2 = Some q2"
      unfolding q2_def by blast
    have p02: "prefix h h2" using p0 p1 p2 by (meson prefix_order.trans)
    have le: "length h0 \<le> length h1" "length h1 \<le> length h2"
      using p1 p2 by (auto dest: prefix_length_le)
    have c2lo: "length h \<le> c2" using f1 f2 le l0 by auto
    show ?thesis
    proof (cases "path_addS c")
      case None
      with Some xs s1 s2 a2 p02 c2lo b2 show ?thesis
        unfolding q1_def q2_def
        by (auto simp: applyPathsS_def alloc_def h0_def add_rulesS_none Let_def)
    next
      case (Some a)
      with adds \<open>pc = Some c\<close> have "paths_at h a = Some ad" by simp
      with p02 have "paths_at h2 a = Some ad" by (rule prefix_paths_at)
      from add_rulesS_paths[OF a2 this] obtain h3 where
        s3: "add_rulesS h2 (Some a) c2 = Some (h3, length h2)"
        and p3: "prefix h2 h3" and l3: "length h3 = Suc (length h2)"
        and a3: "paths_at h3 (length h2) = Some (q2 @ ad)"
        by auto
      have "prefix h h3" using p02 p3 by (rule prefix_order.trans)
      moreover have "length h \<le> length h2" using p02 by (rule prefix_length_le)
      ultimately show ?thesis
        using Some \<open>pc = Some c\<close> xs s1 s2 s3 a3 l3
        unfolding q1_def q2_def
        by (auto simp: applyPathsS_def alloc_def h0_def Let_def)
    qed
  qed
qed


lemma config_in_patterns:
  assumes "config_in h cfg c"
  shows "\<exists>adds. (case patternsS cfg of None \<Rightarrow> True
                 | Some s \<Rightarrow> (case pat_addS s of None \<Rightarrow> True
                              | Some a \<Rightarrow> patterns_at h a = Some (map pattern_object adds)))
          \<and> patterns c =
              (case patternsS cfg of None \<Rightarrow> None
               | Some s \<Rightarrow> Some \<lparr>pat_add = (case pat_addS s of None \<Rightarrow> None | Some a \<Rightarrow> Some adds),
                                  pat_remove = pat_removeS s, pat_override = pat_overrideS s\<rparr>)"
  using assms
  by (auto simp: config_in_def patterns_config_in_def split: option.splits)

lemma config_in_paths:
  assumes "config_in h cfg c"
  shows "\<exists>adds. (case pathsS cfg of None \<Rightarrow> True
                 | Some s \<Rightarrow> (case path_addS s of None \<Rightarrow> True
                              | Some a \<Rightarrow> paths_at h a = Some (map path_object adds)))
          \<and> paths c =
              (case pathsS cfg of None \<Rightarrow> None
               | Some s \<Rightarrow> Some \<lparr>path_add = (case path_addS s of None \<Rightarrow> None | Some a \<Rightarrow> Some adds),
                                  path_remove = path_removeS s, path_override = path_overrideS s\<rparr>)"
  using assms
  by (auto simp: config_in_def paths_config_in_def split: option.splits)

lemma prefix_config_in:
  assumes "prefix h h'" and "config_in h cfg c"
  shows "config_in h' cfg c"
proof -
  have p: "\<And>a ps. patterns_at h a = Some ps \<Longrightarrow> patterns_at h' a = Some ps"
    using assms(1) by (rule prefix_patterns_at)
  have q: "\<And>a ps. paths_at h a = Some ps \<Longrightarrow> paths_at h' a = Some ps"
    using assms(1) by (rule prefix_paths_at)
  show ?thesis
    using assms(2)
    by (auto simp: config_in_def patterns_config_in_def paths_config_in_def
             split: option.splits dest: p q)
qed

lemma applyConfigS_refines:
  assumes dps: "patterns_at h defaultPatterns = Some (map pattern_object dps)"
    and dpaths: "paths_at h defaultPaths = Some (map path_object dpaths)"
    and cfg: "config_in h config c"
  shows "\<exists>h' patterns' paths'.
           applyConfigS h config defaultPatterns defaultPaths = Some (h', patterns', paths')
           \<and> prefix h h'
           \<and> length h \<le> patterns' \<and> patterns' < paths' \<and> paths' < length h'
           \<and> defaultPatterns < length h \<and> defaultPaths < length h
           \<and> patterns_at h' patterns' = Some (fst (applyConfig c dps dpaths))
           \<and> paths_at h' paths' = Some (snd (applyConfig c dps dpaths))"
proof -
  from config_in_patterns[OF cfg] obtain adds where
    ad: "case patternsS config of None \<Rightarrow> True
         | Some s \<Rightarrow> (case pat_addS s of None \<Rightarrow> True
                      | Some a \<Rightarrow> patterns_at h a = Some (map pattern_object adds))"
    and pc: "patterns c =
              (case patternsS config of None \<Rightarrow> None
               | Some s \<Rightarrow> Some \<lparr>pat_add = (case pat_addS s of None \<Rightarrow> None | Some a \<Rightarrow> Some adds),
                                  pat_remove = pat_removeS s, pat_override = pat_overrideS s\<rparr>)"
    by blast
  from config_in_paths[OF cfg] obtain adds' where
    ad': "case pathsS config of None \<Rightarrow> True
          | Some s \<Rightarrow> (case path_addS s of None \<Rightarrow> True
                       | Some a \<Rightarrow> paths_at h a = Some (map path_object adds'))"
    and qc: "paths c =
              (case pathsS config of None \<Rightarrow> None
               | Some s \<Rightarrow> Some \<lparr>path_add = (case path_addS s of None \<Rightarrow> None | Some a \<Rightarrow> Some adds'),
                                  path_remove = path_removeS s, path_override = path_overrideS s\<rparr>)"
    by blast
  have e1: "fst (applyConfig c dps dpaths)
              = (case patternsS config of
                   None \<Rightarrow> map pattern_object dps
                 | Some s \<Rightarrow>
                     (let patterns1 =
                            (case pat_removeS s of
                               None \<Rightarrow> map pattern_object dps
                             | Some removeSet \<Rightarrow>
                                 filter (\<lambda>p. reason_of p \<notin> set removeSet) (map pattern_object dps));
                          patterns2 =
                            (case pat_overrideS s of
                               None \<Rightarrow> patterns1
                             | Some ov \<Rightarrow>
                                 map (\<lambda>p. case read_member ov (reason_of p) of
                                             Some newAction \<Rightarrow> p\<lparr>action_of := newAction\<rparr>
                                           | None \<Rightarrow> p) patterns1)
                      in case pat_addS s of None \<Rightarrow> patterns2
                         | Some a \<Rightarrow> patterns2 @ map pattern_object adds))"
    by (simp add: applyConfig_def pc Let_def split: option.splits)
  have e2: "snd (applyConfig c dps dpaths)
              = (case pathsS config of
                   None \<Rightarrow> map path_object dpaths
                 | Some s \<Rightarrow>
                     (let paths1 =
                            (case path_removeS s of
                               None \<Rightarrow> map path_object dpaths
                             | Some removeSet \<Rightarrow>
                                 filter (\<lambda>p. path_of p \<notin> set removeSet) (map path_object dpaths));
                          paths2 =
                            (case path_overrideS s of
                               None \<Rightarrow> paths1
                             | Some ov \<Rightarrow> override_paths ov [] paths1)
                      in case path_addS s of None \<Rightarrow> paths2
                         | Some a \<Rightarrow> paths2 @ map path_object adds'))"
    by (simp add: applyConfig_def qc Let_def split: option.splits)
  from applyPatternsS_reads[OF dps ad] obtain h1 r1 where
    s1: "applyPatternsS h (patternsS config) defaultPatterns = Some (h1, r1)"
    and p1: "prefix h h1" and lo1: "length h \<le> r1" and hi1: "r1 < length h1"
    and a1: "patterns_at h1 r1 = Some (fst (applyConfig c dps dpaths))"
    unfolding e1 by blast
  have dpaths1: "paths_at h1 defaultPaths = Some (map path_object dpaths)"
    using p1 dpaths by (rule prefix_paths_at)
  have ad1: "case pathsS config of None \<Rightarrow> True
             | Some s \<Rightarrow> (case path_addS s of None \<Rightarrow> True | Some a \<Rightarrow> paths_at h1 a = Some (map path_object adds'))"
    using ad' p1 by (auto split: option.splits dest: prefix_paths_at)
  from applyPathsS_reads[OF dpaths1 ad1] obtain h2 r2 where
    s2: "applyPathsS h1 (pathsS config) defaultPaths = Some (h2, r2)"
    and p2: "prefix h1 h2" and lo2: "length h1 \<le> r2" and hi2: "r2 < length h2"
    and a2: "paths_at h2 r2 = Some (snd (applyConfig c dps dpaths))"
    unfolding e2 by blast
  have "applyConfigS h config defaultPatterns defaultPaths = Some (h2, r1, r2)"
    using s1 s2 by (simp add: applyConfigS_def)
  moreover have "prefix h h2" using p1 p2 by (rule prefix_order.trans)
  moreover have "patterns_at h2 r1 = Some (fst (applyConfig c dps dpaths))"
    using p2 a1 by (rule prefix_patterns_at)
  moreover have "defaultPatterns < length h" "defaultPaths < length h"
    using dps dpaths by (auto dest: patterns_at_bound paths_at_bound)
  ultimately show ?thesis using lo1 hi1 lo2 hi2 a2 by auto
qed

text \<open>
  Claim C9. \<^verbatim>\<open>applyConfig\<close> does not change its arguments. On every store in which
  the two default arrays hold the default rules and the config can be read, the call
  returns; the store after the call is the store before it with new cells behind, so
  every cell that existed holds what it held, and the default arrays, their elements
  and the config read as before; the two arrays returned are cells that did not exist
  before the call, distinct from the default arrays and from each other, for the empty
  config too; and they hold the lists that the function on values computes, with an
  inherited member as action or level where the override read one.
\<close>

theorem C9_applyConfig_does_not_mutate:
  "patterns_at h defaultPatterns = Some (map pattern_object dps) \<Longrightarrow>
   paths_at h defaultPaths = Some (map path_object dpaths) \<Longrightarrow>
   config_in h config c \<Longrightarrow>
   \<exists>h' patterns' paths'.
      applyConfigS h config defaultPatterns defaultPaths = Some (h', patterns', paths')
      \<and> take (length h) h' = h
      \<and> patterns_at h' defaultPatterns = Some (map pattern_object dps)
      \<and> paths_at h' defaultPaths = Some (map path_object dpaths)
      \<and> config_in h' config c
      \<and> length h \<le> patterns' \<and> length h \<le> paths'
      \<and> patterns' \<noteq> defaultPatterns \<and> paths' \<noteq> defaultPaths \<and> patterns' \<noteq> paths'
      \<and> patterns_at h' patterns' = Some (fst (applyConfig c dps dpaths))
      \<and> paths_at h' paths' = Some (snd (applyConfig c dps dpaths))"
proof -
  assume dps: "patterns_at h defaultPatterns = Some (map pattern_object dps)"
    and dpaths: "paths_at h defaultPaths = Some (map path_object dpaths)"
    and cfg: "config_in h config c"
  from applyConfigS_refines[OF dps dpaths cfg] obtain h' r1 r2 where
    s: "applyConfigS h config defaultPatterns defaultPaths = Some (h', r1, r2)"
    and p: "prefix h h'"
    and b: "length h \<le> r1" "r1 < r2" "r2 < length h'"
           "defaultPatterns < length h" "defaultPaths < length h"
    and a: "patterns_at h' r1 = Some (fst (applyConfig c dps dpaths))"
           "paths_at h' r2 = Some (snd (applyConfig c dps dpaths))"
    by blast
  from p have "take (length h) h' = h" by (auto simp: prefix_def)
  moreover note prefix_patterns_at[OF p dps] prefix_paths_at[OF p dpaths] prefix_config_in[OF p cfg]
  ultimately show ?thesis using s b a by auto
qed

text \<open>
  A store with one default pattern of the reason \<^verbatim>\<open>constructor\<close> and one default
  path, and a config that overrides another key: the new array holds a new object with
  the inherited member, and the old cells are as they were.
\<close>

lemma store_instance:
  "patterns_at [PatternObj \<lparr>pattern_of = ''rm'', reason_of = ''constructor'', action_of = Own block\<rparr>,
                Array [0],
                PathObj \<lparr>path_of = ''dist/'', level_of = Own readOnly\<rparr>, Array [2]] 1
     = Some (map pattern_object [\<lparr>pattern = ''rm'', reason = ''constructor'', action = block\<rparr>])"
  "paths_at [PatternObj \<lparr>pattern_of = ''rm'', reason_of = ''constructor'', action_of = Own block\<rparr>,
             Array [0],
             PathObj \<lparr>path_of = ''dist/'', level_of = Own readOnly\<rparr>, Array [2]] 3
     = Some (map path_object [\<lparr>path = ''dist/'', level = readOnly\<rparr>])"
  "config_in [PatternObj \<lparr>pattern_of = ''rm'', reason_of = ''constructor'', action_of = Own block\<rparr>,
              Array [0],
              PathObj \<lparr>path_of = ''dist/'', level_of = Own readOnly\<rparr>, Array [2]]
       \<lparr>patternsS = Some \<lparr>pat_addS = None, pat_removeS = None,
                           pat_overrideS = Some [(''X'', ask)]\<rparr>, pathsS = None\<rparr>
       \<lparr>patterns = Some \<lparr>pat_add = None, pat_remove = None, pat_override = Some [(''X'', ask)]\<rparr>,
        paths = None\<rparr>"
  by code_simp+

theorem C9_applyConfig_does_not_mutate_witness:
  "patterns_at [PatternObj \<lparr>pattern_of = ''rm'', reason_of = ''constructor'', action_of = Own block\<rparr>,
                Array [0],
                PathObj \<lparr>path_of = ''dist/'', level_of = Own readOnly\<rparr>, Array [2]] 1
     = Some (map pattern_object [\<lparr>pattern = ''rm'', reason = ''constructor'', action = block\<rparr>])
   \<and> paths_at [PatternObj \<lparr>pattern_of = ''rm'', reason_of = ''constructor'', action_of = Own block\<rparr>,
                Array [0],
                PathObj \<lparr>path_of = ''dist/'', level_of = Own readOnly\<rparr>, Array [2]] 3
     = Some (map path_object [\<lparr>path = ''dist/'', level = readOnly\<rparr>])
   \<and> config_in [PatternObj \<lparr>pattern_of = ''rm'', reason_of = ''constructor'', action_of = Own block\<rparr>,
                 Array [0],
                 PathObj \<lparr>path_of = ''dist/'', level_of = Own readOnly\<rparr>, Array [2]]
         \<lparr>patternsS = Some \<lparr>pat_addS = None, pat_removeS = None,
                             pat_overrideS = Some [(''X'', ask)]\<rparr>, pathsS = None\<rparr>
         \<lparr>patterns = Some \<lparr>pat_add = None, pat_remove = None, pat_override = Some [(''X'', ask)]\<rparr>,
          paths = None\<rparr>
   \<and> (\<exists>h' patterns' paths'.
        applyConfigS
          [PatternObj \<lparr>pattern_of = ''rm'', reason_of = ''constructor'', action_of = Own block\<rparr>,
           Array [0],
           PathObj \<lparr>path_of = ''dist/'', level_of = Own readOnly\<rparr>, Array [2]]
          \<lparr>patternsS = Some \<lparr>pat_addS = None, pat_removeS = None,
                              pat_overrideS = Some [(''X'', ask)]\<rparr>, pathsS = None\<rparr> 1 3
          = Some (h', patterns', paths')
        \<and> take 4 h'
            = [PatternObj \<lparr>pattern_of = ''rm'', reason_of = ''constructor'', action_of = Own block\<rparr>,
               Array [0],
               PathObj \<lparr>path_of = ''dist/'', level_of = Own readOnly\<rparr>, Array [2]]
        \<and> patterns' \<noteq> 1 \<and> paths' \<noteq> 3
        \<and> patterns_at h' patterns'
            = Some [\<lparr>pattern_of = ''rm'', reason_of = ''constructor'',
                     action_of = Inherited ''constructor''\<rparr>]
        \<and> paths_at h' paths' = Some [\<lparr>path_of = ''dist/'', level_of = Own readOnly\<rparr>])"
proof -
  from C9_applyConfig_does_not_mutate[OF store_instance]
  obtain h' patterns' paths' where
    "applyConfigS
       [PatternObj \<lparr>pattern_of = ''rm'', reason_of = ''constructor'', action_of = Own block\<rparr>,
        Array [0],
        PathObj \<lparr>path_of = ''dist/'', level_of = Own readOnly\<rparr>, Array [2]]
       \<lparr>patternsS = Some \<lparr>pat_addS = None, pat_removeS = None,
                           pat_overrideS = Some [(''X'', ask)]\<rparr>, pathsS = None\<rparr> 1 3
       = Some (h', patterns', paths')"
    "take 4 h'
       = [PatternObj \<lparr>pattern_of = ''rm'', reason_of = ''constructor'', action_of = Own block\<rparr>,
          Array [0],
          PathObj \<lparr>path_of = ''dist/'', level_of = Own readOnly\<rparr>, Array [2]]"
    "patterns' \<noteq> 1" "paths' \<noteq> 3"
    "patterns_at h' patterns'
       = Some [\<lparr>pattern_of = ''rm'', reason_of = ''constructor'',
                action_of = Inherited ''constructor''\<rparr>]"
    "paths_at h' paths' = Some [\<lparr>path_of = ''dist/'', level_of = Own readOnly\<rparr>]"
    by (auto simp: applyConfig_def eval_nat_numeral read_member_def OBJECT_PROTOTYPE_def
          pattern_object_def path_object_def)
  with store_instance show ?thesis by blast
qed

end
